theory Spec2Isabelle
  imports Main
begin

section \<open>Python values and exceptions\<close>

text \<open>
  The values that reach the dispatcher: task arguments, descriptor entries, callables.
  A plain function is \<open>PFunc\<close>, a coroutine function (\<open>async def\<close>) is \<open>PCoroFunc\<close>;
  the number only tells two callables apart.
\<close>

datatype pyval =
    PNone
  | PBool bool
  | PInt int
  | PStr string
  | PList "pyval list"
  | PTuple "pyval list"
  | PDict "(pyval \<times> pyval) list"
  | PFunc nat
  | PCoroFunc nat

text \<open>Python truth value, as used by \<open>x or y\<close> and \<open>x and y\<close>.\<close>

fun truthy :: "pyval \<Rightarrow> bool" where
  "truthy PNone = False"
| "truthy (PBool b) = b"
| "truthy (PInt i) = (i \<noteq> 0)"
| "truthy (PStr s) = (s \<noteq> [])"
| "truthy (PList xs) = (xs \<noteq> [])"
| "truthy (PTuple xs) = (xs \<noteq> [])"
| "truthy (PDict kvs) = (kvs \<noteq> [])"
| "truthy (PFunc f) = True"
| "truthy (PCoroFunc f) = True"

definition py_or :: "pyval \<Rightarrow> pyval \<Rightarrow> pyval" where
  "py_or a b = (if truthy a then a else b)"

text \<open>\<open>isinstance(v, (list, tuple))\<close> and \<open>isinstance(v, dict)\<close>.\<close>

fun is_list_or_tuple :: "pyval \<Rightarrow> bool" where
  "is_list_or_tuple (PList xs) = True"
| "is_list_or_tuple (PTuple xs) = True"
| "is_list_or_tuple v = False"

fun is_dict :: "pyval \<Rightarrow> bool" where
  "is_dict (PDict kvs) = True"
| "is_dict v = False"

text \<open>\<open>asyncio.iscoroutinefunction\<close>.\<close>

fun iscoroutinefunction :: "pyval \<Rightarrow> bool" where
  "iscoroutinefunction (PCoroFunc f) = True"
| "iscoroutinefunction v = False"

text \<open>
  Exceptions. \<open>KeyboardInterrupt\<close> and \<open>SystemExit\<close> derive from \<open>BaseException\<close> only,
  as does \<open>OtherBaseException\<close> (for instance \<open>GeneratorExit\<close>); all the others are
  instances of \<open>Exception\<close>.
\<close>

datatype exn =
    AttributeError
  | AssertionError
  | InvalidStateError
  | RuntimeError
  | ValueError
  | SystemError
  | UserException nat
  | KeyboardInterrupt
  | SystemExit
  | OtherBaseException nat

fun is_Exception :: "exn \<Rightarrow> bool" where
  "is_Exception KeyboardInterrupt = False"
| "is_Exception SystemExit = False"
| "is_Exception (OtherBaseException n) = False"
| "is_Exception e = True"

section \<open>Task\<close>

text \<open>
  \<open>concurrent.futures.Future\<close>: the state constants of the standard library, and what a
  Future holds. A done callback is one of the two callables this code ever attaches: a
  callable supplied by the user, or the lambda of \<open>submit_task\<close> that releases one
  concurrency permit.
\<close>

datatype fstate = PENDING | RUNNING | CANCELLED | CANCELLED_AND_NOTIFIED | FINISHED

datatype hook = UserCallback pyval | ReleasePermit

record future_attrs =
  state :: fstate
  result :: pyval
  exception :: "exn option"
  done_callbacks :: "hook list"

text \<open>
  \<open>class Task(Future)\<close>. \<open>dispatcher\<close> is \<open>True\<close> when the attribute refers to the
  Dispatcher (there is one in this model) and \<open>False\<close> when it is \<open>None\<close>; \<open>worker\<close> holds
  the name of the Worker; \<open>future\<close> is the handle returned by
  \<open>asyncio.run_coroutine_threadsafe\<close>, with the flag telling whether its \<open>cancel()\<close> has
  been called.
\<close>

record task = future_attrs +
  func :: pyval
  args :: pyval
  kwargs :: pyval
  callback :: pyval
  dispatcher :: bool
  worker :: "nat option"
  future :: "bool option"

definition is_async :: "task \<Rightarrow> bool" where
  "is_async t = iscoroutinefunction (func t)"

definition Future_done :: "task \<Rightarrow> bool" where
  "Future_done t = (state t \<in> {CANCELLED, CANCELLED_AND_NOTIFIED, FINISHED})"

text \<open>
  \<open>Task.__init__\<close> (lines 31-40). Lines 32-38 assign the seven attributes of the Task;
  line 39 calls \<open>add_done_callback\<close> when the callback is truthy, and that method starts
  with \<open>with self._condition:\<close>; only line 40 runs \<open>Future.__init__\<close>, which creates
  \<open>_condition\<close>, \<open>_state = PENDING\<close>, \<open>_result = None\<close>, \<open>_exception = None\<close>, \<open>_waiters\<close> and
  \<open>_done_callbacks = []\<close>. Reading an attribute that the instance does not have raises
  \<open>AttributeError\<close>.
\<close>

definition Task_init :: "pyval \<Rightarrow> pyval \<Rightarrow> pyval \<Rightarrow> pyval \<Rightarrow> exn + task" where
  "Task_init f a k cb =
     (let attrs = [''func'', ''args'', ''kwargs'', ''callback'', ''dispatcher'', ''worker'', ''future'']
      in if truthy cb \<and> ''_condition'' \<notin> set attrs then Inl AttributeError
         else Inr \<lparr> state = PENDING, result = PNone, exception = None, done_callbacks = [],
                    func = f, args = py_or a (PList []), kwargs = py_or k (PDict []),
                    callback = cb, dispatcher = False, worker = None, future = None \<rparr>)"

text \<open>
  \<open>Dispatcher.make_task\<close> (lines 253-283). The argument is a Task or a dict; \<open>dict_get\<close> is
  \<open>dict.get(key, default)\<close>.
\<close>

datatype task_or_dict = IsTask task | IsDict "string \<rightharpoonup> pyval"

definition dict_get :: "(string \<rightharpoonup> pyval) \<Rightarrow> string \<Rightarrow> pyval \<Rightarrow> pyval" where
  "dict_get d k dflt = (case d k of None \<Rightarrow> dflt | Some v \<Rightarrow> v)"

definition make_task :: "task_or_dict \<Rightarrow> exn + task" where
  "make_task x =
     (case x of
        IsTask t \<Rightarrow> Inr t
      | IsDict d \<Rightarrow>
          (let fn = dict_get d ''func'' PNone;
               positional = dict_get d ''args'' (PList []);
               positional = (if \<not> is_list_or_tuple positional then PList [positional] else positional);
               keyword = dict_get d ''kwargs'' (PDict []);
               keyword = (if \<not> is_dict keyword then PDict [] else keyword);
               cb = dict_get d ''callback'' PNone
           in Task_init fn positional keyword cb))"

section \<open>Worker and Dispatcher\<close>

text \<open>
  \<open>class Worker(threading.Thread)\<close>. Workers are named \<open>worker-<n>\<close> with \<open>n\<close> taken from
  the Dispatcher's counter, so the number \<open>n\<close> stands for the name and for the object.
  Besides the attributes of the class the record holds what the thread is doing:
  \<open>alive\<close> is \<open>Thread.is_alive()\<close>; \<open>async_exc\<close> tells that \<open>PyThreadState_SetAsyncExc\<close> has
  set a \<open>SystemExit\<close> for the thread that has not left \<open>run\<close> yet (it is still to be
  raised, or, set by the thread itself, it is on its way up the stack); \<open>in_get\<close> tells
  that the thread is inside \<open>tasks.get(timeout=5)\<close> (line 71); \<open>current\<close> is the local
  variable \<open>task\<close> of \<open>run\<close> while the callable is executing.
\<close>

record worker_obj =
  w_shutdown :: bool
  w_trace :: bool
  awaken :: bool
  alive :: bool
  async_exc :: bool
  in_get :: bool
  current :: "nat option"

text \<open>
  The thread that makes a call: the thread of the Worker of that name, or any other thread
  (a client's, the Dispatcher's own).
\<close>

datatype thread = OtherThread | WorkerThread nat

text \<open>
  \<open>class Dispatcher(threading.Thread)\<close>. \<open>tasks\<close> is the unbounded \<open>queue.Queue\<close> (handles of
  Tasks, first in first out); \<open>workers\<close> is the registry dict, kept as the list of its keys
  in insertion order; \<open>remain_workers\<close> and \<open>semaphore\<close> are the values of the two
  \<open>threading.Semaphore\<close>s; \<open>shutdown_ev\<close> and \<open>running_ev\<close> are the events \<open>_shutdown\<close> and
  \<open>_running\<close>.

  The rest of the record is the world around the object: whether the Dispatcher's own thread
  has been started, whether the callback \<open>_shutdown.set\<close> is queued in the event loop,
  whether the loop is closed, the Task and Worker objects by handle, the number of
  \<open>not_full.notify()\<close> calls, the notifications given to \<open>events.Event.invoke\<close>, and the
  user callbacks that have been called (callable and Task).
\<close>

record dispatcher_state =
  max_workers :: nat
  trace :: bool
  tasks :: "nat list"
  workers :: "nat list"
  remain_workers :: nat
  semaphore :: nat
  shutdown_ev :: bool
  running_ev :: bool
  counter :: nat
  started :: bool
  shutdown_scheduled :: bool
  loop_closed :: bool
  task_store :: "nat \<Rightarrow> task"
  worker_store :: "nat \<Rightarrow> worker_obj"
  not_full_notified :: nat
  event_bus :: "(exn \<times> string) list"
  callback_log :: "(pyval \<times> nat) list"

text \<open>
  What a call does: it returns a value, it raises, or the calling thread blocks; each with
  the state it leaves.
\<close>

datatype 'r outcome =
    Returned 'r dispatcher_state
  | Raised exn dispatcher_state
  | Blocked dispatcher_state

fun final :: "'r outcome \<Rightarrow> dispatcher_state" where
  "final (Returned r st) = st"
| "final (Raised e st) = st"
| "final (Blocked st) = st"

text \<open>The result of \<open>task.func(*task.args, **task.kwargs)\<close>, run to its end.\<close>

datatype call_result = Returns pyval | Raises exn

type_synonym callables = "pyval \<Rightarrow> pyval \<Rightarrow> pyval \<Rightarrow> call_result"

definition upd_task :: "dispatcher_state \<Rightarrow> nat \<Rightarrow> (task \<Rightarrow> task) \<Rightarrow> dispatcher_state" where
  "upd_task st tid f = st\<lparr>task_store := (task_store st)(tid := f (task_store st tid))\<rparr>"

definition upd_worker ::
  "dispatcher_state \<Rightarrow> nat \<Rightarrow> (worker_obj \<Rightarrow> worker_obj) \<Rightarrow> dispatcher_state" where
  "upd_worker st n f = st\<lparr>worker_store := (worker_store st)(n := f (worker_store st n))\<rparr>"

subsection \<open>The methods of Future, on a Task of the store\<close>

text \<open>
  Calling a done callback: the lambda of \<open>submit_task\<close> releases one concurrency permit; a
  user callback is recorded as called.
\<close>

definition run_hook :: "dispatcher_state \<Rightarrow> nat \<Rightarrow> hook \<Rightarrow> dispatcher_state" where
  "run_hook st tid h =
     (case h of
        ReleasePermit \<Rightarrow> st\<lparr>semaphore := semaphore st + 1\<rparr>
      | UserCallback cb \<Rightarrow> st\<lparr>callback_log := callback_log st @ [(cb, tid)]\<rparr>)"

definition invoke_callbacks :: "dispatcher_state \<Rightarrow> nat \<Rightarrow> dispatcher_state" where
  "invoke_callbacks st tid =
     foldl (\<lambda>s h. run_hook s tid h) st (done_callbacks (task_store st tid))"

definition Future_add_done_callback :: "dispatcher_state \<Rightarrow> nat \<Rightarrow> hook \<Rightarrow> dispatcher_state" where
  "Future_add_done_callback st tid fn =
     (if state (task_store st tid) \<notin> {CANCELLED, CANCELLED_AND_NOTIFIED, FINISHED}
      then upd_task st tid (\<lambda>t. t\<lparr>done_callbacks := done_callbacks t @ [fn]\<rparr>)
      else run_hook st tid fn)"

definition Future_set_result :: "dispatcher_state \<Rightarrow> nat \<Rightarrow> pyval \<Rightarrow> unit outcome" where
  "Future_set_result st tid v =
     (if state (task_store st tid) \<in> {CANCELLED, CANCELLED_AND_NOTIFIED, FINISHED}
      then Raised InvalidStateError st
      else Returned ()
             (invoke_callbacks (upd_task st tid (\<lambda>t. t\<lparr>result := v, state := FINISHED\<rparr>)) tid))"

definition Future_set_exception :: "dispatcher_state \<Rightarrow> nat \<Rightarrow> exn \<Rightarrow> unit outcome" where
  "Future_set_exception st tid e =
     (if state (task_store st tid) \<in> {CANCELLED, CANCELLED_AND_NOTIFIED, FINISHED}
      then Raised InvalidStateError st
      else Returned ()
             (invoke_callbacks
                (upd_task st tid (\<lambda>t. t\<lparr>exception := Some e, state := FINISHED\<rparr>)) tid))"

definition Future_cancel :: "dispatcher_state \<Rightarrow> nat \<Rightarrow> bool outcome" where
  "Future_cancel st tid =
     (if state (task_store st tid) \<in> {RUNNING, FINISHED} then Returned False st
      else if state (task_store st tid) \<in> {CANCELLED, CANCELLED_AND_NOTIFIED}
      then Returned True st
      else Returned True (invoke_callbacks (upd_task st tid (\<lambda>t. t\<lparr>state := CANCELLED\<rparr>)) tid))"

subsection \<open>Worker.stop, pause, awake\<close>

text \<open>
  \<open>ctypes.pythonapi.PyThreadState_SetAsyncExc(tid, exc)\<close>, called by the thread \<open>caller\<close>
  for the thread of Worker \<open>n\<close>. It returns the number of thread states it changed: one for
  the id of a live thread, none when no thread has that id. The exception is raised in the
  target thread when that thread next runs Python code. When the target is the calling
  thread itself, that is at once: \<open>SystemExit\<close> is raised in the caller in line 102, before
  the value of the call is stored, and goes up the caller's stack; \<open>async_exc\<close> stays set
  until the exception has left \<open>run\<close>.
\<close>

definition SetAsyncExc :: "thread \<Rightarrow> dispatcher_state \<Rightarrow> nat \<Rightarrow> nat outcome" where
  "SetAsyncExc caller st n =
     (if \<not> alive (worker_store st n) then Returned 0 st
      else if caller = WorkerThread n
      then Raised SystemExit (upd_worker st n (\<lambda>w. w\<lparr>async_exc := True\<rparr>))
      else Returned 1 (upd_worker st n (\<lambda>w. w\<lparr>async_exc := True\<rparr>)))"

text \<open>
  \<open>Worker.stop\<close> (lines 94-109), called by the thread \<open>caller\<close>. An exception raised in line
  102 leaves \<open>stop\<close> before line 109 sets \<open>_shutdown\<close>.
\<close>

definition Worker_stop :: "thread \<Rightarrow> dispatcher_state \<Rightarrow> nat \<Rightarrow> unit outcome" where
  "Worker_stop caller st n =
     (if \<not> alive (worker_store st n) then Returned () st
      else (case SetAsyncExc caller st n of
              Returned res st1 \<Rightarrow>
                if res = 0 then Raised ValueError st1
                else if res > 1
                then Raised SystemError (upd_worker st1 n (\<lambda>w. w\<lparr>async_exc := False\<rparr>))
                else Returned () (upd_worker st1 n (\<lambda>w. w\<lparr>w_shutdown := True\<rparr>))
            | Raised e st1 \<Rightarrow> Raised e st1
            | Blocked st1 \<Rightarrow> Blocked st1))"

definition Worker_pause :: "dispatcher_state \<Rightarrow> nat \<Rightarrow> dispatcher_state" where
  "Worker_pause st n = upd_worker st n (\<lambda>w. w\<lparr>awaken := False\<rparr>)"

definition Worker_awake :: "dispatcher_state \<Rightarrow> nat \<Rightarrow> dispatcher_state" where
  "Worker_awake st n = upd_worker st n (\<lambda>w. w\<lparr>awaken := True\<rparr>)"

subsection \<open>Dispatcher\<close>

text \<open>
  \<open>Dispatcher.__init__\<close> (lines 144-157), given the Tasks that exist. \<open>max_workers\<close> is a
  natural number: \<open>threading.Semaphore\<close> rejects a negative value. No Worker exists yet:
  every entry of the Worker store is a thread that is not alive.
\<close>

definition Dispatcher_init :: "nat \<Rightarrow> bool \<Rightarrow> (nat \<Rightarrow> task) \<Rightarrow> dispatcher_state" where
  "Dispatcher_init mw tr ts =
     \<lparr> max_workers = mw, trace = tr, tasks = [], workers = [],
       remain_workers = mw, semaphore = mw, shutdown_ev = False, running_ev = False,
       counter = 0, started = False, shutdown_scheduled = False, loop_closed = False,
       task_store = ts,
       worker_store = (\<lambda>n. \<lparr> w_shutdown = False, w_trace = tr, awaken = True, alive = False,
                                async_exc = False, in_get = False, current = None \<rparr>),
       not_full_notified = 0, event_bus = [], callback_log = [] \<rparr>"

definition is_running :: "dispatcher_state \<Rightarrow> bool" where
  "is_running st = (\<not> shutdown_ev st \<and> running_ev st)"

definition running :: "dispatcher_state \<Rightarrow> int" where
  "running st = int (max_workers st) - int (remain_workers st) + int (length (tasks st))"

text \<open>
  \<open>create_worker\<close> (lines 159-170): per round a Worker is constructed, stored in the registry
  under its name and started; then \<open>_remain_workers.acquire()\<close> takes a slot, and blocks the
  caller when the semaphore is at zero.
\<close>

fun create_worker_loop :: "dispatcher_state \<Rightarrow> nat \<Rightarrow> unit outcome" where
  "create_worker_loop st 0 = Returned () st"
| "create_worker_loop st (Suc k) =
     (let name = counter st;
          w = \<lparr> w_shutdown = False, w_trace = trace st, awaken = True, alive = True,
                async_exc = False, in_get = False, current = None \<rparr>;
          st1 = st\<lparr> counter := counter st + 1,
                    worker_store := (worker_store st)(name := w),
                    workers := (if name \<in> set (workers st) then workers st
                                else workers st @ [name]) \<rparr>
      in if remain_workers st1 = 0 then Blocked st1
         else create_worker_loop (st1\<lparr>remain_workers := remain_workers st1 - 1\<rparr>) k)"

definition create_worker :: "dispatcher_state \<Rightarrow> int \<Rightarrow> unit outcome" where
  "create_worker st sz = create_worker_loop st (nat sz)"

text \<open>
  \<open>stop_worker\<close> (lines 172-182), called by the thread \<open>caller\<close>:
  \<open>self.workers.pop(ident, None)\<close>, then for a Worker that was found
  \<open>_remain_workers.release()\<close> and \<open>worker.stop()\<close>. An exception raised by \<open>worker.stop()\<close>
  ends the loop: the names that follow are not looked at.
\<close>

fun stop_worker :: "thread \<Rightarrow> dispatcher_state \<Rightarrow> nat list \<Rightarrow> unit outcome" where
  "stop_worker caller st [] = Returned () st"
| "stop_worker caller st (ident # idents) =
     (if ident \<in> set (workers st)
      then (let st1 = st\<lparr>workers := removeAll ident (workers st)\<rparr>;
                st2 = st1\<lparr>remain_workers := remain_workers st1 + 1\<rparr>
            in case Worker_stop caller st2 ident of
                 Returned u st3 \<Rightarrow> stop_worker caller st3 idents
               | Raised e st3 \<Rightarrow> Raised e st3
               | Blocked st3 \<Rightarrow> Blocked st3)
      else stop_worker caller st idents)"

fun pause_worker :: "dispatcher_state \<Rightarrow> nat list \<Rightarrow> dispatcher_state" where
  "pause_worker st [] = st"
| "pause_worker st (ident # idents) =
     pause_worker (if ident \<in> set (workers st) then Worker_pause st ident else st) idents"

fun awake_worker :: "dispatcher_state \<Rightarrow> nat list \<Rightarrow> dispatcher_state" where
  "awake_worker st [] = st"
| "awake_worker st (ident # idents) =
     awake_worker (if ident \<in> set (workers st) then Worker_awake st ident else st) idents"

definition adjust_workers :: "dispatcher_state \<Rightarrow> unit outcome" where
  "adjust_workers st =
     (let remain_w = remain_workers st;
          remain_tasks = length (tasks st)
      in if remain_w > 0 \<and> remain_tasks > 0
         then create_worker st (int (min remain_w remain_tasks))
         else Returned () st)"

text \<open>
  \<open>submit_task\<close> (lines 206-218). \<open>timeout\<close> is \<open>None\<close> or an integer. The \<open>assert\<close> raises
  \<open>AssertionError\<close> (Python run without \<open>-O\<close>). \<open>_semaphore.acquire()\<close> blocks the caller
  when no permit is free.
\<close>

definition submit_task :: "dispatcher_state \<Rightarrow> nat \<Rightarrow> int option \<Rightarrow> nat outcome" where
  "submit_task st tid timeout =
     (if \<not> is_running st then Raised AssertionError st
      else (let st1 = upd_task st tid (\<lambda>t. t\<lparr>dispatcher := True\<rparr>);
                queued =
                  (if timeout = Some (- 1)
                   then Returned () (st1\<lparr>tasks := tasks st1 @ [tid]\<rparr>)
                   else if semaphore st1 = 0 then Blocked st1
                   else (let st2 = st1\<lparr>semaphore := semaphore st1 - 1\<rparr>;
                             st3 = st2\<lparr>tasks := tasks st2 @ [tid]\<rparr>
                         in Returned () (Future_add_done_callback st3 tid ReleasePermit)))
            in case queued of
                 Returned u st4 \<Rightarrow>
                   (case adjust_workers st4 of
                      Returned u' st5 \<Rightarrow> Returned tid st5
                    | Raised e st5 \<Rightarrow> Raised e st5
                    | Blocked st5 \<Rightarrow> Blocked st5)
               | Raised e st4 \<Rightarrow> Raised e st4
               | Blocked st4 \<Rightarrow> Blocked st4))"

text \<open>
  \<open>cancel_task\<close> (lines 226-240), called by the thread \<open>caller\<close>. \<open>deque.remove\<close> deletes
  the first occurrence.
\<close>

definition cancel_task :: "thread \<Rightarrow> dispatcher_state \<Rightarrow> nat \<Rightarrow> unit outcome" where
  "cancel_task caller st tid =
     (if tid \<in> set (tasks st)
      then Returned () (st\<lparr> tasks := remove1 tid (tasks st),
                              not_full_notified := not_full_notified st + 1 \<rparr>)
      else (case worker (task_store st tid) of
              Some n \<Rightarrow>
                if \<not> Future_done (task_store st tid) then stop_worker caller st [n]
                else Returned () st
            | None \<Rightarrow> Returned () st))"

text \<open>
  \<open>Task.cancel\<close> (lines 46-49), called by the thread \<open>caller\<close>: the Dispatcher's
  \<open>cancel_task\<close> when the Task has a Dispatcher, \<open>cancel()\<close> on the handle of the coroutine
  when there is one, then \<open>Future.cancel\<close>. An exception raised in line 47 leaves \<open>cancel\<close>
  before lines 48 and 49.
\<close>

definition Task_cancel :: "thread \<Rightarrow> dispatcher_state \<Rightarrow> nat \<Rightarrow> bool outcome" where
  "Task_cancel caller st tid =
     (case (if dispatcher (task_store st tid) then cancel_task caller st tid
            else Returned () st) of
        Returned u st1 \<Rightarrow>
          (let st2 = (case future (task_store st1 tid) of
                        Some c \<Rightarrow> upd_task st1 tid (\<lambda>t. t\<lparr>future := Some True\<rparr>)
                      | None \<Rightarrow> st1)
           in Future_cancel st2 tid)
      | Raised e st1 \<Rightarrow> Raised e st1
      | Blocked st1 \<Rightarrow> Blocked st1)"

text \<open>
  \<open>create_future\<close> (lines 242-251): the two assertions, then
  \<open>asyncio.run_coroutine_threadsafe\<close>, which refuses a closed loop; the new handle has not
  been cancelled.
\<close>

definition create_future :: "dispatcher_state \<Rightarrow> nat \<Rightarrow> bool outcome" where
  "create_future st tid =
     (if \<not> is_running st then Raised AssertionError st
      else if \<not> is_async (task_store st tid) then Raised AssertionError st
      else if loop_closed st then Raised RuntimeError st
      else Returned False st)"

text \<open>
  \<open>start\<close> and \<open>run\<close> (lines 292-302, 311-313). A thread starts once. The new thread runs the
  loop: callbacks queued before are called first, then \<open>main\<close> sets \<open>_running\<close> and waits for
  \<open>_shutdown\<close>; when that is set already, \<open>main\<close> ends and the loop is closed. \<open>start\<close>
  returns when \<open>_running\<close> is set.
\<close>

definition Dispatcher_start :: "dispatcher_state \<Rightarrow> unit outcome" where
  "Dispatcher_start st =
     (if started st then Raised RuntimeError st
      else (let st1 = st\<lparr>started := True\<rparr>;
                st2 = (if shutdown_scheduled st1
                       then st1\<lparr>shutdown_ev := True, shutdown_scheduled := False\<rparr>
                       else st1);
                st3 = st2\<lparr>running_ev := True\<rparr>;
                st4 = (if shutdown_ev st3 then st3\<lparr>loop_closed := True\<rparr> else st3)
            in Returned () st4))"

text \<open>
  The Dispatcher's thread takes the queued callback \<open>_shutdown.set\<close> from its loop: the
  event is set, \<open>main\<close> wakes up and ends, \<open>run\<close> closes the loop.
\<close>

definition loop_tick :: "dispatcher_state \<Rightarrow> dispatcher_state" where
  "loop_tick st =
     (if started st \<and> \<not> loop_closed st \<and> shutdown_scheduled st
      then st\<lparr>shutdown_ev := True, shutdown_scheduled := False, loop_closed := True\<rparr>
      else st)"

text \<open>
  \<open>stop\<close> (lines 304-309), called by the thread \<open>caller\<close>: \<open>stop_worker\<close> for all registered
  names (line 305), then \<open>_shutdown.set\<close> is handed to the loop with \<open>call_soon_threadsafe\<close>
  (which raises \<open>RuntimeError\<close> on a closed loop), and \<open>_running\<close> is cleared. An exception
  raised in line 305 leaves \<open>stop\<close> before lines 307 and 309.
\<close>

definition Dispatcher_stop :: "thread \<Rightarrow> dispatcher_state \<Rightarrow> unit outcome" where
  "Dispatcher_stop caller st =
     (case stop_worker caller st (workers st) of
        Returned u st1 \<Rightarrow>
          if loop_closed st1 then Raised RuntimeError st1
          else Returned () (st1\<lparr>shutdown_scheduled := True, running_ev := False\<rparr>)
      | Raised e st1 \<Rightarrow> Raised e st1
      | Blocked st1 \<Rightarrow> Blocked st1)"

subsection \<open>Worker.run\<close>

text \<open>
  Modelled from the spec: \<open>events.Event.invoke(context.Error(error=e, form=...))\<close> lives in
  modules of the repository that are not part of the sources at hand; by the specification
  it gives one structured notification, the error and the phase, to the external event bus.
\<close>

definition Event_invoke :: "dispatcher_state \<Rightarrow> exn \<Rightarrow> string \<Rightarrow> dispatcher_state" where
  "Event_invoke st e form = st\<lparr>event_bus := event_bus st @ [(e, form)]\<rparr>"

definition ERROR_OCCURRED :: string where
  "ERROR_OCCURRED = ''ERROR_OCCURRED''"

text \<open>The thread of a Worker ends: \<open>run\<close> has returned or an exception has left it.\<close>

definition thread_exit :: "dispatcher_state \<Rightarrow> nat \<Rightarrow> dispatcher_state" where
  "thread_exit st n =
     upd_worker st n
       (\<lambda>w. w\<lparr>alive := False, async_exc := False, in_get := False, current := None\<rparr>)"

text \<open>
  The two \<open>except\<close> clauses of \<open>run\<close> (lines 87-92) for an exception \<open>e\<close> raised inside the
  \<open>try\<close> while Worker \<open>n\<close> executes Task \<open>tid\<close>. \<open>Raised\<close> means that an exception leaves
  \<open>run\<close>; \<open>Returned\<close> means that the loop goes on.
\<close>

definition handle_exn :: "dispatcher_state \<Rightarrow> nat \<Rightarrow> nat \<Rightarrow> exn \<Rightarrow> unit outcome" where
  "handle_exn st n tid e =
     (if e = KeyboardInterrupt \<or> e = SystemExit then Raised e (thread_exit st n)
      else if is_Exception e
      then (case Future_set_exception st tid e of
              Returned u st1 \<Rightarrow> Returned () (Event_invoke st1 e ERROR_OCCURRED)
            | Raised e' st1 \<Rightarrow> Raised e' (thread_exit st1 n)
            | Blocked st1 \<Rightarrow> Blocked st1)
      else Raised e (thread_exit st n))"

text \<open>
  One round of the loop of \<open>run\<close> (lines 68-92), in three steps.

  \<open>Worker_run_begin\<close> goes from the head of the loop into \<open>tasks.get(timeout=5)\<close>: an
  injected \<open>SystemExit\<close> ends the thread; the loop condition is tested, and \<open>run\<close> returns
  when it fails; a paused Worker waits, without tracing in line 69, with tracing in the
  trace function (lines 123-127) at the first line of the next call; otherwise the thread
  enters \<open>tasks.get\<close>.
\<close>

definition Worker_run_begin :: "dispatcher_state \<Rightarrow> nat \<Rightarrow> unit outcome" where
  "Worker_run_begin st n =
     (let w = worker_store st n
      in if \<not> alive w \<or> in_get w \<or> current w \<noteq> None then Returned () st
         else if async_exc w then Raised SystemExit (thread_exit st n)
         else if \<not> (is_running st \<and> \<not> w_shutdown w) then Returned () (thread_exit st n)
         else if \<not> w_trace w \<and> \<not> awaken w then Blocked st
         else if w_trace w \<and> \<not> awaken w then Blocked st
         else Returned () (upd_worker st n (\<lambda>w. w\<lparr>in_get := True\<rparr>)))"

text \<open>
  \<open>Worker_run_get\<close>: the thread is inside \<open>tasks.get(timeout=5)\<close> and comes back from it.
  Pausing the Worker now does not hold it, line 69 being behind it; only with tracing on
  does the trace function hold a paused Worker, at the next line of \<open>get\<close>. An injected
  \<open>SystemExit\<close> ends the thread. \<open>get\<close> gives the head of the queue, or, the queue having
  stayed empty for the whole wait, raises \<open>queue.Empty\<close>; then the Worker calls
  \<open>stop_worker\<close> with its own name on its own thread (line 75) and returns (line 76), unless
  an exception leaves line 75. With a Task, line 72 sets its \<open>worker\<close>, and for a coroutine
  function the handle is created and stored; the step ends where the callable is called.
\<close>

definition Worker_run_get :: "dispatcher_state \<Rightarrow> nat \<Rightarrow> unit outcome" where
  "Worker_run_get st n =
     (let w = worker_store st n
      in if \<not> alive w \<or> \<not> in_get w then Returned () st
         else if w_trace w \<and> \<not> awaken w then Blocked st
         else if async_exc w then Raised SystemExit (thread_exit st n)
         else (case tasks st of
                 [] \<Rightarrow>
                   (case stop_worker (WorkerThread n) st [n] of
                      Returned u st1 \<Rightarrow> Returned () (thread_exit st1 n)
                    | Raised e st1 \<Rightarrow> Raised e (thread_exit st1 n)
                    | Blocked st1 \<Rightarrow> Blocked st1)
               | tid # rest \<Rightarrow>
                   (let st0 = upd_worker st n (\<lambda>w. w\<lparr>in_get := False\<rparr>);
                        st1 = st0\<lparr>tasks := rest\<rparr>;
                        st2 = upd_task st1 tid (\<lambda>t. t\<lparr>worker := Some n\<rparr>)
                    in if is_async (task_store st2 tid)
                       then (case create_future st2 tid of
                               Returned h st3 \<Rightarrow>
                                 Returned ()
                                   (upd_worker
                                      (upd_task st3 tid (\<lambda>t. t\<lparr>future := Some h\<rparr>))
                                      n (\<lambda>w. w\<lparr>current := Some tid\<rparr>))
                             | Raised e st3 \<Rightarrow> handle_exn st3 n tid e
                             | Blocked st3 \<Rightarrow> Blocked st3)
                       else Returned () (upd_worker st2 n (\<lambda>w. w\<lparr>current := Some tid\<rparr>)))))"

text \<open>
  \<open>Worker_run_finish\<close>: the callable (or the coroutine behind \<open>future.result()\<close>) comes to
  its end. A \<open>SystemExit\<close> set for the thread meanwhile, by another thread or by a call
  that the callable itself made, ends the callable and is re-raised by line 88. The
  value of a plain callable goes to \<open>set_result\<close>; the value of \<open>future.result()\<close> is not
  used; an exception goes to the \<open>except\<close> clauses, as does one raised by \<open>set_result\<close>.
\<close>

definition Worker_run_finish :: "callables \<Rightarrow> dispatcher_state \<Rightarrow> nat \<Rightarrow> unit outcome" where
  "Worker_run_finish call st n =
     (let w = worker_store st n
      in case current w of
           None \<Rightarrow> Returned () st
         | Some tid \<Rightarrow>
             if \<not> alive w then Returned () st
             else if async_exc w then Raised SystemExit (thread_exit st n)
             else (let t = task_store st tid;
                       st0 = upd_worker st n (\<lambda>w. w\<lparr>current := None\<rparr>)
                   in case call (func t) (args t) (kwargs t) of
                        Returns v \<Rightarrow>
                          if is_async t then Returned () st0
                          else (case Future_set_result st0 tid v of
                                  Returned u st1 \<Rightarrow> Returned () st1
                                | Raised e st1 \<Rightarrow> handle_exn st1 n tid e
                                | Blocked st1 \<Rightarrow> Blocked st1)
                      | Raises e \<Rightarrow> handle_exn st0 n tid e))"

subsection \<open>Runs of the system\<close>

text \<open>
  The calls that can be made and the steps the threads take, one after the other; a call
  that raises or blocks leaves the state it had reached. The calls that reach \<open>stop_worker\<close>
  name the thread that makes them: a callable or a done callback that a Worker executes
  makes its calls on that Worker's thread.
\<close>

datatype event =
    Start
  | Stop thread
  | LoopTick
  | SubmitTask nat "int option"
  | CancelTask thread nat
  | TaskCancel thread nat
  | AddDoneCallback nat pyval
  | CreateWorker int
  | StopWorker thread "nat list"
  | PauseWorker "nat list"
  | AwakeWorker "nat list"
  | AdjustWorkers
  | WorkerBegin nat
  | WorkerGet nat
  | WorkerFinish nat

fun step :: "callables \<Rightarrow> dispatcher_state \<Rightarrow> event \<Rightarrow> dispatcher_state" where
  "step call st Start = final (Dispatcher_start st)"
| "step call st (Stop caller) = final (Dispatcher_stop caller st)"
| "step call st LoopTick = loop_tick st"
| "step call st (SubmitTask tid timeout) = final (submit_task st tid timeout)"
| "step call st (CancelTask caller tid) = final (cancel_task caller st tid)"
| "step call st (TaskCancel caller tid) = final (Task_cancel caller st tid)"
| "step call st (AddDoneCallback tid cb) = Future_add_done_callback st tid (UserCallback cb)"
| "step call st (CreateWorker sz) = final (create_worker st sz)"
| "step call st (StopWorker caller idents) = final (stop_worker caller st idents)"
| "step call st (PauseWorker idents) = pause_worker st idents"
| "step call st (AwakeWorker idents) = awake_worker st idents"
| "step call st AdjustWorkers = final (adjust_workers st)"
| "step call st (WorkerBegin n) = final (Worker_run_begin st n)"
| "step call st (WorkerGet n) = final (Worker_run_get st n)"
| "step call st (WorkerFinish n) = final (Worker_run_finish call st n)"

definition exec :: "callables \<Rightarrow> dispatcher_state \<Rightarrow> event list \<Rightarrow> dispatcher_state" where
  "exec call st evs = foldl (step call) st evs"

subsection \<open>Views of the state\<close>

text \<open>
  Groups of fields, to say what a call leaves as it was: the five flags of the life cycle;
  the queue, the permits, the Tasks and the logs; the registry with its counters. \<open>pool_inv\<close>
  is the bookkeeping of the pool: the registry holds each name once, every name was issued
  by the counter, and registered Workers and free slots add up to \<open>max_workers\<close>.
  \<open>exc_inv\<close> tells that the live Workers for which a \<open>SystemExit\<close> has been set are those
  that have been taken out of the registry.
\<close>

definition flags :: "dispatcher_state \<Rightarrow> bool \<times> bool \<times> bool \<times> bool \<times> bool" where
  "flags st = (shutdown_ev st, running_ev st, started st, shutdown_scheduled st, loop_closed st)"

definition task_part ::
  "dispatcher_state \<Rightarrow> nat list \<times> nat \<times> (nat \<Rightarrow> task) \<times> nat \<times> (exn \<times> string) list \<times> (pyval \<times> nat) list" where
  "task_part st = (tasks st, semaphore st, task_store st, not_full_notified st, event_bus st, callback_log st)"

definition pool_part :: "dispatcher_state \<Rightarrow> nat list \<times> nat \<times> nat \<times> nat \<times> bool" where
  "pool_part st = (workers st, remain_workers st, counter st, max_workers st, trace st)"

definition pool_inv :: "dispatcher_state \<Rightarrow> bool" where
  "pool_inv st = (distinct (workers st) \<and> list_all (\<lambda>n. n < counter st) (workers st) \<and>
                  length (workers st) + remain_workers st = max_workers st)"

definition exc_inv :: "dispatcher_state \<Rightarrow> bool" where
  "exc_inv st =
     (\<forall>n. alive (worker_store st n) \<longrightarrow>
           async_exc (worker_store st n) = (n \<notin> set (workers st)))"

text \<open>
  A call \<open>keeps\<close> the life cycle and the pool: the flags are as before, and \<open>pool_inv\<close> and
  \<open>exc_inv\<close> still hold if they held.
\<close>

definition keeps :: "dispatcher_state \<Rightarrow> dispatcher_state \<Rightarrow> bool" where
  "keeps st st' = (flags st' = flags st \<and> (pool_inv st \<longrightarrow> pool_inv st') \<and>
                   (exc_inv st \<longrightarrow> exc_inv st'))"

text \<open>
  Two facts about the life cycle: a closed loop means that the shutdown event is set; a
  Dispatcher is \<open>halted\<close> when the shutdown event is set, or is on its way in the loop while
  \<open>_running\<close> is cleared. \<open>create_worker_fits\<close> tells of a run that none of its
  \<open>create_worker\<close> calls asks for more Workers than there are free slots at that moment.
\<close>

definition closed_loop_is_shut :: "dispatcher_state \<Rightarrow> bool" where
  "closed_loop_is_shut st = (loop_closed st \<longrightarrow> shutdown_ev st)"

definition halted :: "dispatcher_state \<Rightarrow> bool" where
  "halted st = (shutdown_ev st \<or> (shutdown_scheduled st \<and> \<not> running_ev st))"

fun create_worker_fits :: "callables \<Rightarrow> dispatcher_state \<Rightarrow> event list \<Rightarrow> bool" where
  "create_worker_fits call st [] = True"
| "create_worker_fits call st (ev # evs) =
     ((case ev of CreateWorker sz \<Rightarrow> nat sz \<le> remain_workers st | _ \<Rightarrow> True) \<and>
      create_worker_fits call (step call st ev) evs)"

text \<open>
  The Tasks that have been submitted (\<open>submit_task\<close> has set their \<open>dispatcher\<close>) and have
  not reached a terminal state.
\<close>

definition in_flight_or_queued :: "dispatcher_state \<Rightarrow> nat" where
  "in_flight_or_queued st =
     card {tid. dispatcher (task_store st tid) \<and> \<not> Future_done (task_store st tid)}"

subsection \<open>Concrete inputs\<close>

text \<open>
  A Task as \<open>Task(f)\<close> constructs it, two callables (one returns \<open>None\<close>, one raises), and
  a Dispatcher with one Worker slot whose Tasks are all such Tasks.
\<close>

definition example_task :: task where
  "example_task =
     \<lparr> state = PENDING, result = PNone, exception = None, done_callbacks = [],
       func = PFunc 0, args = PList [], kwargs = PDict [], callback = PNone,
       dispatcher = False, worker = None, future = None \<rparr>"

definition returns_none :: callables where
  "returns_none f a k = Returns PNone"

definition raises_error :: callables where
  "raises_error f a k = Raises (UserException 0)"

definition example_init :: dispatcher_state where
  "example_init = Dispatcher_init 1 False (\<lambda>tid. example_task)"

text \<open>The same with a coroutine function as the callable of every Task.\<close>

definition example_coroutine_task :: task where
  "example_coroutine_task = example_task\<lparr>func := PCoroFunc 0\<rparr>"

definition example_async_init :: dispatcher_state where
  "example_async_init = Dispatcher_init 1 False (\<lambda>tid. example_coroutine_task)"

section \<open>Properties of Task construction\<close>

lemma Task_init_truthy_callback:
  "truthy cb \<Longrightarrow> Task_init f a k cb = Inl AttributeError"
  by (simp add: Task_init_def)

lemma Task_init_falsy_callback:
  "\<not> truthy cb \<Longrightarrow>
   Task_init f a k cb =
     Inr \<lparr> state = PENDING, result = PNone, exception = None, done_callbacks = [],
           func = f, args = py_or a (PList []), kwargs = py_or k (PDict []),
           callback = cb, dispatcher = False, worker = None, future = None \<rparr>"
  by (simp add: Task_init_def)

lemma Task_init_Inr_fields:
  "Task_init f a k cb = Inr t \<Longrightarrow>
   args t = py_or a (PList []) \<and> kwargs t = py_or k (PDict []) \<and> func t = f \<and>
   callback t = cb \<and> state t = PENDING \<and> done_callbacks t = [] \<and> \<not> truthy cb"
  by (auto simp: Task_init_def split: if_splits)

text \<open>
  Claim C2 says that a Task constructed with a non-null completion callback fires that
  callback exactly once, after the Task has become terminal. The constructor registers the
  callback before the Future part of the object exists, so the construction itself raises
  \<open>AttributeError\<close>: no Task comes into being and the callback can never fire.
\<close>

theorem Task_init_with_callback_raises:
  "Task_init (PFunc 0) PNone PNone (PFunc 1) = Inl AttributeError"
  by (simp add: Task_init_def)

text \<open>
  What \<open>make_task\<close> does with a descriptor whose callback is absent or falsy, and with a
  Task. A Task is returned unchanged. For a descriptor, whenever a Task results, absent
  \<open>args\<close> have become the empty list, a single value that is neither list nor tuple has
  been wrapped into a one-element list, and absent \<open>kwargs\<close> have become the empty dict; and
  a Task does result when the callback is absent or falsy.
\<close>

lemma make_task_normalizes:
  "make_task (IsTask t0) = Inr t0 \<and>
   (make_task (IsDict d) = Inr t \<longrightarrow>
      (d ''args'' = None \<longrightarrow> args t = PList []) \<and>
      (\<forall>v. d ''args'' = Some v \<and> \<not> is_list_or_tuple v \<longrightarrow> args t = PList [v]) \<and>
      (d ''kwargs'' = None \<longrightarrow> kwargs t = PDict [])) \<and>
   (\<not> truthy (dict_get d ''callback'' PNone) \<longrightarrow> (\<exists>t'. make_task (IsDict d) = Inr t'))"
proof (intro conjI impI allI)
  show "make_task (IsTask t0) = Inr t0"
    by (simp add: make_task_def)
next
  assume r: "make_task (IsDict d) = Inr t" and a: "d ''args'' = None"
  from r a have "args t = py_or (PList []) (PList [])"
    by (auto simp: make_task_def dict_get_def Let_def dest: Task_init_Inr_fields)
  then show "args t = PList []"
    by (simp add: py_or_def)
next
  fix v
  assume r: "make_task (IsDict d) = Inr t"
    and a: "d ''args'' = Some v \<and> \<not> is_list_or_tuple v"
  from r a have "args t = py_or (PList [v]) (PList [])"
    by (auto simp: make_task_def dict_get_def Let_def dest: Task_init_Inr_fields)
  then show "args t = PList [v]"
    by (simp add: py_or_def)
next
  assume r: "make_task (IsDict d) = Inr t" and k: "d ''kwargs'' = None"
  from r k have "kwargs t = py_or (PDict []) (PDict [])"
    by (auto simp: make_task_def dict_get_def Let_def dest: Task_init_Inr_fields)
  then show "kwargs t = PDict []"
    by (simp add: py_or_def)
next
  assume "\<not> truthy (dict_get d ''callback'' PNone)"
  then show "\<exists>t'. make_task (IsDict d) = Inr t'"
    by (simp add: make_task_def Let_def Task_init_falsy_callback)
qed

text \<open>
  A \<open>kwargs\<close> entry that is present but is not a dict is dropped: \<open>make_task\<close> does exactly
  what it does for the descriptor without that entry; a Task that results has empty
  keyword arguments; and a Task does result when the callback is absent or falsy.
\<close>

lemma make_task_discards_non_dict_kwargs:
  "d ''kwargs'' = Some v \<and> \<not> is_dict v \<longrightarrow>
     make_task (IsDict d) = make_task (IsDict (d(''kwargs'' := None))) \<and>
     (\<forall>t. make_task (IsDict d) = Inr t \<longrightarrow> kwargs t = PDict [] \<and> kwargs t \<noteq> v) \<and>
     (\<not> truthy (dict_get d ''callback'' PNone) \<longrightarrow>
        (\<exists>t. make_task (IsDict d) = Inr t \<and> kwargs t = PDict []))"
proof (intro impI conjI allI)
  assume a: "d ''kwargs'' = Some v \<and> \<not> is_dict v"
  then show "make_task (IsDict d) = make_task (IsDict (d(''kwargs'' := None)))"
    by (simp add: make_task_def dict_get_def Let_def)
next
  fix t
  assume a: "d ''kwargs'' = Some v \<and> \<not> is_dict v" and r: "make_task (IsDict d) = Inr t"
  from a r have "kwargs t = py_or (PDict []) (PDict [])"
    by (auto simp: make_task_def dict_get_def Let_def dest: Task_init_Inr_fields)
  then show "kwargs t = PDict []"
    by (simp add: py_or_def)
  with a show "kwargs t \<noteq> v"
    by auto
next
  assume a: "d ''kwargs'' = Some v \<and> \<not> is_dict v"
    and c: "\<not> truthy (dict_get d ''callback'' PNone)"
  then show "\<exists>t. make_task (IsDict d) = Inr t \<and> kwargs t = PDict []"
    by (simp add: make_task_def dict_get_def Let_def Task_init_falsy_callback py_or_def)
qed

text \<open>
  Claim C7 says that for every descriptor passed to \<open>make_task\<close> the arguments are
  normalised, so that \<open>args: 5\<close> yields the positional arguments \<open>[5]\<close>. For the descriptor
  \<open>{func: f, args: 5, kwargs: {}, callback: g}\<close> no Task results: \<open>make_task\<close> hands the
  callback to the constructor, which raises \<open>AttributeError\<close> for every truthy callback
  (see \<open>Task_init\<close>).
\<close>

theorem make_task_args_with_callback_raises:
  "make_task (IsDict [''func'' \<mapsto> PFunc 0, ''args'' \<mapsto> PInt 5,
                      ''kwargs'' \<mapsto> PDict [], ''callback'' \<mapsto> PFunc 1]) =
     Inl AttributeError"
  by (simp add: make_task_def dict_get_def Task_init_def)

text \<open>
  Claim C9 says that for every descriptor whose \<open>kwargs\<close> value is present but is not a
  mapping a Task with empty keyword arguments results and no error is raised. For the
  descriptor \<open>{func: f, kwargs: 5, callback: g}\<close> an error is raised and no Task results:
  the constructor raises \<open>AttributeError\<close> for the truthy callback.
\<close>

theorem make_task_kwargs_with_callback_raises:
  "make_task (IsDict [''func'' \<mapsto> PFunc 0, ''kwargs'' \<mapsto> PInt 5,
                      ''callback'' \<mapsto> PFunc 1]) =
     Inl AttributeError"
  by (simp add: make_task_def dict_get_def Task_init_def)

section \<open>What the calls leave unchanged\<close>

lemma upd_worker_parts [simp]:
  "flags (upd_worker st n f) = flags st"
  "task_part (upd_worker st n f) = task_part st"
  "pool_part (upd_worker st n f) = pool_part st"
  "worker_store (upd_worker st n f) = (worker_store st)(n := f (worker_store st n))"
  by (simp_all add: upd_worker_def flags_def task_part_def pool_part_def)

lemma upd_task_parts [simp]:
  "flags (upd_task st tid g) = flags st"
  "pool_part (upd_task st tid g) = pool_part st"
  "worker_store (upd_task st tid g) = worker_store st"
  "tasks (upd_task st tid g) = tasks st"
  "semaphore (upd_task st tid g) = semaphore st"
  "not_full_notified (upd_task st tid g) = not_full_notified st"
  "event_bus (upd_task st tid g) = event_bus st"
  "callback_log (upd_task st tid g) = callback_log st"
  "task_store (upd_task st tid g) = (task_store st)(tid := g (task_store st tid))"
  by (simp_all add: upd_task_def flags_def pool_part_def)

lemma upd_worker_fields [simp]:
  "tasks (upd_worker st n f) = tasks st"
  "semaphore (upd_worker st n f) = semaphore st"
  "task_store (upd_worker st n f) = task_store st"
  "event_bus (upd_worker st n f) = event_bus st"
  "callback_log (upd_worker st n f) = callback_log st"
  "not_full_notified (upd_worker st n f) = not_full_notified st"
  "workers (upd_worker st n f) = workers st"
  "remain_workers (upd_worker st n f) = remain_workers st"
  by (simp_all add: upd_worker_def)

lemma is_Exception_not_exit: "is_Exception e \<Longrightarrow> e \<noteq> KeyboardInterrupt \<and> e \<noteq> SystemExit"
  by (cases e) simp_all

lemma pool_inv_cong: "pool_part st' = pool_part st \<Longrightarrow> pool_inv st' = pool_inv st"
  by (simp add: pool_part_def pool_inv_def)

lemma is_running_flags: "flags st' = flags st \<Longrightarrow> is_running st' = is_running st"
  by (simp add: flags_def is_running_def)


lemma task_part_simps:
  "task_part st' = task_part st \<Longrightarrow>
     tasks st' = tasks st \<and> semaphore st' = semaphore st \<and> task_store st' = task_store st \<and>
     not_full_notified st' = not_full_notified st \<and> event_bus st' = event_bus st \<and>
     callback_log st' = callback_log st"
  by (simp add: task_part_def)

lemma exc_inv_same:
  assumes "exc_inv st" and "set (workers st') = set (workers st)"
    and "\<And>m. alive (worker_store st' m) \<Longrightarrow>
           alive (worker_store st m) \<and>
           async_exc (worker_store st' m) = async_exc (worker_store st m)"
  shows "exc_inv st'"
  using assms unfolding exc_inv_def by blast

text \<open>
  \<open>Worker.stop\<close> by its three ways out: the thread is not alive; the caller is the target;
  another thread is the target.
\<close>

lemma Worker_stop_cases:
  "Worker_stop caller st n =
     (if \<not> alive (worker_store st n) then Returned () st
      else if caller = WorkerThread n
      then Raised SystemExit (upd_worker st n (\<lambda>w. w\<lparr>async_exc := True\<rparr>))
      else Returned () (upd_worker st n (\<lambda>w. w\<lparr>async_exc := True, w_shutdown := True\<rparr>)))"
  by (simp add: Worker_stop_def SetAsyncExc_def upd_worker_def)

lemma Worker_stop_frame:
  "flags (final (Worker_stop caller st n)) = flags st \<and>
   task_part (final (Worker_stop caller st n)) = task_part st \<and>
   pool_part (final (Worker_stop caller st n)) = pool_part st \<and>
   (\<forall>m. m \<noteq> n \<longrightarrow> worker_store (final (Worker_stop caller st n)) m = worker_store st m) \<and>
   alive (worker_store (final (Worker_stop caller st n)) n) = alive (worker_store st n) \<and>
   (alive (worker_store st n) \<longrightarrow> async_exc (worker_store (final (Worker_stop caller st n)) n)) \<and>
   (\<forall>st'. Worker_stop caller st n \<noteq> Blocked st') \<and>
   (\<forall>e st'. Worker_stop caller st n = Raised e st' \<longrightarrow> e = SystemExit)"
  by (simp add: Worker_stop_cases)

lemma Worker_stop_other:
  "Worker_stop OtherThread st n =
     Returned () (if alive (worker_store st n)
                  then upd_worker st n (\<lambda>w. w\<lparr>async_exc := True, w_shutdown := True\<rparr>)
                  else st)"
  by (simp add: Worker_stop_cases)

text \<open>One name taken out of the registry, its slot released, its Worker stopped.\<close>

lemma stop_one_frame:
  assumes reg: "ident \<in> set (workers st)"
    and st2: "st2 = st\<lparr>workers := removeAll ident (workers st)\<rparr>
                      \<lparr>remain_workers := remain_workers st + 1\<rparr>"
    and st3: "st3 = final (Worker_stop caller st2 ident)"
  shows "flags st3 = flags st" "task_part st3 = task_part st"
    "max_workers st3 = max_workers st" "counter st3 = counter st" "trace st3 = trace st"
    "workers st3 = removeAll ident (workers st)"
    "remain_workers st3 = remain_workers st + 1"
    "pool_inv st \<Longrightarrow> pool_inv st3" "exc_inv st \<Longrightarrow> exc_inv st3"
proof -
  have f2: "flags st2 = flags st" "task_part st2 = task_part st"
    "max_workers st2 = max_workers st" "counter st2 = counter st" "trace st2 = trace st"
    "workers st2 = removeAll ident (workers st)"
    "remain_workers st2 = remain_workers st + 1"
    "worker_store st2 = worker_store st"
    by (simp_all add: st2 flags_def task_part_def)
  from Worker_stop_frame [of caller st2 ident] have f3: "flags st3 = flags st2"
    "task_part st3 = task_part st2" "pool_part st3 = pool_part st2"
    "\<And>m. m \<noteq> ident \<Longrightarrow> worker_store st3 m = worker_store st2 m"
    "alive (worker_store st3 ident) = alive (worker_store st2 ident)"
    "alive (worker_store st2 ident) \<Longrightarrow> async_exc (worker_store st3 ident)"
    by (simp_all add: st3)
  from f3(3) have p3: "workers st3 = workers st2" "max_workers st3 = max_workers st2"
    "counter st3 = counter st2" "trace st3 = trace st2"
    "remain_workers st3 = remain_workers st2"
    by (simp_all add: pool_part_def)
  show "flags st3 = flags st" "task_part st3 = task_part st"
    "max_workers st3 = max_workers st" "counter st3 = counter st" "trace st3 = trace st"
    "workers st3 = removeAll ident (workers st)"
    "remain_workers st3 = remain_workers st + 1"
    using f2 f3 p3 by simp_all
  show "pool_inv st3" if inv: "pool_inv st"
  proof -
    from reg have pos: "0 < length (workers st)"
      by (cases "workers st") auto
    from inv have d: "distinct (workers st)"
      by (simp add: pool_inv_def)
    then have len: "length (removeAll ident (workers st)) = length (workers st) - 1"
      using reg by (simp add: distinct_remove1_removeAll [symmetric] length_remove1)
    have a: "distinct (workers st2)"
      using d by (simp add: f2 distinct_removeAll)
    have b: "list_all (\<lambda>n. n < counter st2) (workers st2)"
      using inv by (auto simp: pool_inv_def f2 list_all_iff)
    have "length (workers st) + remain_workers st = max_workers st"
      using inv by (simp add: pool_inv_def)
    with pos len have c: "length (workers st2) + remain_workers st2 = max_workers st2"
      unfolding f2 by arith
    from a b c have "pool_inv st2"
      unfolding pool_inv_def by blast
    with pool_inv_cong [OF f3(3)] show ?thesis by simp
  qed
  show "exc_inv st3" if inv: "exc_inv st"
    unfolding exc_inv_def
  proof (intro allI impI)
    fix m
    assume a: "alive (worker_store st3 m)"
    show "async_exc (worker_store st3 m) = (m \<notin> set (workers st3))"
    proof (cases "m = ident")
      case True
      with a f3(5,6) p3 f2 show ?thesis by simp
    next
      case False
      with a f3(4) [of m] f2 have "alive (worker_store st m)"
        "async_exc (worker_store st3 m) = async_exc (worker_store st m)"
        by simp_all
      with inv False p3 f2 show ?thesis
        by (simp add: exc_inv_def)
    qed
  qed
qed

lemma stop_worker_frame:
  "flags (final (stop_worker caller st ids)) = flags st \<and>
   task_part (final (stop_worker caller st ids)) = task_part st \<and>
   (pool_inv st \<longrightarrow> pool_inv (final (stop_worker caller st ids))) \<and>
   (exc_inv st \<longrightarrow> exc_inv (final (stop_worker caller st ids))) \<and>
   max_workers (final (stop_worker caller st ids)) = max_workers st \<and>
   counter (final (stop_worker caller st ids)) = counter st \<and>
   trace (final (stop_worker caller st ids)) = trace st \<and>
   set (workers (final (stop_worker caller st ids))) \<subseteq> set (workers st) \<and>
   (\<forall>st'. stop_worker caller st ids \<noteq> Blocked st') \<and>
   (\<forall>e st'. stop_worker caller st ids = Raised e st' \<longrightarrow> e = SystemExit)"
proof (induction ids arbitrary: st)
  case Nil
  show ?case by simp
next
  case (Cons ident idents)
  show ?case
  proof (cases "ident \<in> set (workers st)")
    case False
    with Cons.IH [of st] show ?thesis by simp
  next
    case True
    define st2 where "st2 = st\<lparr>workers := removeAll ident (workers st)\<rparr>
                              \<lparr>remain_workers := remain_workers st + 1\<rparr>"
    define st3 where "st3 = final (Worker_stop caller st2 ident)"
    note one = stop_one_frame [OF True st2_def st3_def]
    have nb: "Worker_stop caller st2 ident \<noteq> Blocked st'" for st'
      using Worker_stop_frame [of caller st2 ident] by blast
    have sub: "set (workers st3) \<subseteq> set (workers st)"
      using one(6) by auto
    show ?thesis
    proof (cases "Worker_stop caller st2 ident")
      case (Returned u st3')
      then have e3: "st3' = st3" by (simp add: st3_def)
      have eq: "stop_worker caller st (ident # idents) = stop_worker caller st3 idents"
        using True Returned e3 by (simp add: st2_def)
      from Cons.IH [of st3] one sub show ?thesis
        unfolding eq by auto
    next
      case (Raised e st3')
      then have e3: "st3' = st3" by (simp add: st3_def)
      from Raised Worker_stop_frame [of caller st2 ident] have ex: "e = SystemExit"
        by blast
      have eq: "stop_worker caller st (ident # idents) = Raised e st3"
        using True Raised e3 by (simp add: st2_def)
      from one sub ex show ?thesis
        unfolding eq by simp
    next
      case (Blocked st3')
      with nb show ?thesis by blast
    qed
  qed
qed

text \<open>Called by a thread that is not a Worker's, \<open>stop_worker\<close> returns.\<close>

lemma stop_worker_returns:
  "\<exists>st'. stop_worker OtherThread st ids = Returned () st' \<and>
         set (workers st') = set (workers st) - set ids"
proof (induction ids arbitrary: st)
  case Nil
  show ?case by simp
next
  case (Cons ident idents)
  show ?case
  proof (cases "ident \<in> set (workers st)")
    case False
    with Cons.IH [of st] show ?thesis by auto
  next
    case True
    define st2 where "st2 = st\<lparr>workers := removeAll ident (workers st)\<rparr>
                              \<lparr>remain_workers := remain_workers st + 1\<rparr>"
    define st3 where "st3 = final (Worker_stop OtherThread st2 ident)"
    have w: "Worker_stop OtherThread st2 ident = Returned () st3"
      by (simp add: st3_def Worker_stop_other)
    have eq: "stop_worker OtherThread st (ident # idents) = stop_worker OtherThread st3 idents"
      using True w by (simp add: st2_def)
    have "workers st3 = removeAll ident (workers st)"
      by (rule stop_one_frame(6) [OF True st2_def st3_def])
    with Cons.IH [of st3] show ?thesis
      unfolding eq by auto
  qed
qed

lemmas model_defs =
  exec_def example_init_def example_task_def returns_none_def raises_error_def
  example_async_init_def example_coroutine_task_def
  Dispatcher_init_def Dispatcher_start_def Dispatcher_stop_def loop_tick_def
  submit_task_def adjust_workers_def create_worker_def cancel_task_def Task_cancel_def
  create_future_def is_running_def running_def
  Worker_run_begin_def Worker_run_get_def Worker_run_finish_def handle_exn_def
  thread_exit_def Event_invoke_def ERROR_OCCURRED_def Worker_stop_def SetAsyncExc_def
  Worker_pause_def Worker_awake_def
  Future_add_done_callback_def Future_set_result_def Future_set_exception_def
  Future_cancel_def Future_done_def invoke_callbacks_def run_hook_def
  upd_task_def upd_worker_def is_async_def Let_def


lemma thread_exit_parts [simp]:
  "flags (thread_exit st n) = flags st"
  "task_part (thread_exit st n) = task_part st"
  "pool_part (thread_exit st n) = pool_part st"
  "alive (worker_store (thread_exit st n) n) = False"
  "current (worker_store (thread_exit st n) n) = None"
  "w_shutdown (worker_store (thread_exit st n) n) = w_shutdown (worker_store st n)"
  by (simp_all add: thread_exit_def)

lemma keeps_refl [simp]: "keeps st st"
  by (simp add: keeps_def)

lemma keeps_trans: "keeps st st1 \<Longrightarrow> keeps st1 st2 \<Longrightarrow> keeps st st2"
  by (simp add: keeps_def)

lemma keeps_parts:
  assumes "flags st' = flags st" and "pool_part st' = pool_part st"
    and "\<And>m. alive (worker_store st' m) \<Longrightarrow>
           alive (worker_store st m) \<and>
           async_exc (worker_store st' m) = async_exc (worker_store st m)"
  shows "keeps st st'"
proof -
  from assms(2) have w: "workers st' = workers st"
    by (simp add: pool_part_def)
  have "exc_inv st'" if "exc_inv st"
    using that w assms(3) by (intro exc_inv_same [of st st']) simp_all
  with assms(1) pool_inv_cong [OF assms(2)] show ?thesis
    by (simp add: keeps_def)
qed

lemma keeps_same_workers:
  "flags st' = flags st \<Longrightarrow> pool_part st' = pool_part st \<Longrightarrow>
   worker_store st' = worker_store st \<Longrightarrow> keeps st st'"
  by (rule keeps_parts) simp_all

lemma keeps_bind:
  assumes "keeps st (final oc)"
    and "\<And>u st1. oc = Returned u st1 \<Longrightarrow> keeps st1 (final (f u st1))"
  shows "keeps st (final (case oc of Returned u st1 \<Rightarrow> f u st1
                           | Raised e st1 \<Rightarrow> Raised e st1 | Blocked st1 \<Rightarrow> Blocked st1))"
  using assms by (cases oc) (auto simp: keeps_def)

lemma keeps_upd_worker:
  "(\<And>w. alive (f w) \<Longrightarrow> alive w \<and> async_exc (f w) = async_exc w) \<Longrightarrow>
   keeps st (upd_worker st n f)"
  by (rule keeps_parts) (simp_all split: if_splits)

lemma keeps_worker_updates [simp]:
  "keeps st (upd_worker st n (\<lambda>w. w\<lparr>current := c\<rparr>))"
  "keeps st (upd_worker st n (\<lambda>w. w\<lparr>in_get := b\<rparr>))"
  "keeps st (upd_worker st n (\<lambda>w. w\<lparr>awaken := b\<rparr>))"
  "keeps st (thread_exit st n)"
  unfolding thread_exit_def by (rule keeps_upd_worker, simp)+

lemma keeps_upd_task [simp]: "keeps st (upd_task st tid g)"
  by (simp add: keeps_same_workers)

lemma keeps_stop_worker: "keeps st (final (stop_worker caller st ids))"
  using stop_worker_frame [of caller st ids] by (simp add: keeps_def)

lemma run_hook_parts [simp]:
  "flags (run_hook st tid h) = flags st"
  "pool_part (run_hook st tid h) = pool_part st"
  "task_store (run_hook st tid h) = task_store st"
  "tasks (run_hook st tid h) = tasks st"
  "worker_store (run_hook st tid h) = worker_store st"
  "event_bus (run_hook st tid h) = event_bus st"
  "not_full_notified (run_hook st tid h) = not_full_notified st"
  by (simp_all add: run_hook_def flags_def pool_part_def split: hook.splits)

lemma run_hooks_parts:
  "flags (foldl (\<lambda>s h. run_hook s tid h) st hs) = flags st \<and>
   pool_part (foldl (\<lambda>s h. run_hook s tid h) st hs) = pool_part st \<and>
   task_store (foldl (\<lambda>s h. run_hook s tid h) st hs) = task_store st \<and>
   tasks (foldl (\<lambda>s h. run_hook s tid h) st hs) = tasks st \<and>
   worker_store (foldl (\<lambda>s h. run_hook s tid h) st hs) = worker_store st \<and>
   event_bus (foldl (\<lambda>s h. run_hook s tid h) st hs) = event_bus st \<and>
   not_full_notified (foldl (\<lambda>s h. run_hook s tid h) st hs) = not_full_notified st"
  by (induction hs arbitrary: st) simp_all

lemma invoke_callbacks_parts [simp]:
  "flags (invoke_callbacks st tid) = flags st"
  "pool_part (invoke_callbacks st tid) = pool_part st"
  "task_store (invoke_callbacks st tid) = task_store st"
  "tasks (invoke_callbacks st tid) = tasks st"
  "worker_store (invoke_callbacks st tid) = worker_store st"
  "event_bus (invoke_callbacks st tid) = event_bus st"
  "not_full_notified (invoke_callbacks st tid) = not_full_notified st"
  by (simp_all add: invoke_callbacks_def run_hooks_parts)

lemma keeps_invoke_callbacks [simp]: "keeps st (invoke_callbacks st tid)"
  by (simp add: keeps_same_workers)

lemma keeps_add_done_callback [simp]: "keeps st (Future_add_done_callback st tid h)"
  by (simp add: Future_add_done_callback_def keeps_same_workers)

lemma keeps_set_result: "keeps st (final (Future_set_result st tid v))"
  by (simp add: Future_set_result_def keeps_same_workers)

lemma keeps_set_exception: "keeps st (final (Future_set_exception st tid e))"
  by (simp add: Future_set_exception_def keeps_same_workers)

lemma keeps_cancel: "keeps st (final (Future_cancel st tid))"
  by (simp add: Future_cancel_def keeps_same_workers)

lemma keeps_pause_worker: "keeps st (pause_worker st ids)"
proof (induction ids arbitrary: st)
  case Nil
  show ?case by simp
next
  case (Cons a ids)
  have "keeps st (if a \<in> set (workers st) then Worker_pause st a else st)"
    by (simp add: Worker_pause_def)
  from keeps_trans [OF this Cons.IH] show ?case
    by simp
qed

lemma keeps_awake_worker: "keeps st (awake_worker st ids)"
proof (induction ids arbitrary: st)
  case Nil
  show ?case by simp
next
  case (Cons a ids)
  have "keeps st (if a \<in> set (workers st) then Worker_awake st a else st)"
    by (simp add: Worker_awake_def)
  from keeps_trans [OF this Cons.IH] show ?case
    by simp
qed

lemma keeps_field_updates [simp]:
  "keeps st (st\<lparr>tasks := ts\<rparr>)"
  "keeps st (st\<lparr>semaphore := k\<rparr>)"
  "keeps st (st\<lparr>tasks := ts, not_full_notified := m\<rparr>)"
  by (simp_all add: keeps_def flags_def pool_inv_def exc_inv_def)

lemma keeps_cancel_task: "keeps st (final (cancel_task caller st tid))"
  by (simp add: cancel_task_def keeps_stop_worker split: option.splits
      del: stop_worker.simps)

lemma keeps_Task_cancel: "keeps st (final (Task_cancel caller st tid))"
proof -
  have a: "keeps st (final (if dispatcher (task_store st tid) then cancel_task caller st tid
                            else Returned () st))"
    by (simp add: keeps_cancel_task)
  have b: "keeps st1 (final (let st2 = (case future (task_store st1 tid) of
                        Some c \<Rightarrow> upd_task st1 tid (\<lambda>t. t\<lparr>future := Some True\<rparr>)
                      | None \<Rightarrow> st1)
           in Future_cancel st2 tid))" for st1
    using keeps_trans [OF keeps_upd_task keeps_cancel, of st1 tid _ tid] keeps_cancel [of st1 tid]
    by (cases "future (task_store st1 tid)") simp_all
  show ?thesis
    unfolding Task_cancel_def by (rule keeps_bind [OF a]) (rule b)
qed

lemma create_worker_loop_frame:
  "flags (final (create_worker_loop st k)) = flags st \<and>
   task_part (final (create_worker_loop st k)) = task_part st \<and>
   (exc_inv st \<longrightarrow> exc_inv (final (create_worker_loop st k)))"
proof (induction k arbitrary: st)
  case 0
  show ?case by simp
next
  case (Suc k)
  let ?st1 = "st\<lparr> counter := counter st + 1,
                    worker_store := (worker_store st)(counter st :=
                       \<lparr> w_shutdown = False, w_trace = trace st, awaken = True, alive = True,
                         async_exc = False, in_get = False, current = None \<rparr>),
                    workers := (if counter st \<in> set (workers st) then workers st
                                else workers st @ [counter st]) \<rparr>"
  let ?st2 = "?st1\<lparr>remain_workers := remain_workers ?st1 - 1\<rparr>"
  have a: "flags ?st1 = flags st" "task_part ?st1 = task_part st"
    by (simp_all add: flags_def task_part_def)
  have b: "flags ?st2 = flags st" "task_part ?st2 = task_part st"
    by (simp_all add: flags_def task_part_def)
  have e1: "exc_inv st \<longrightarrow> exc_inv ?st1"
    by (auto simp: exc_inv_def)
  have e2: "exc_inv st \<longrightarrow> exc_inv ?st2"
    by (auto simp: exc_inv_def)
  show ?case
  proof (cases "remain_workers st = 0")
    case True
    then show ?thesis using a e1 by (simp add: Let_def)
  next
    case False
    then have "create_worker_loop st (Suc k) = create_worker_loop ?st2 k"
      by (simp add: Let_def)
    with Suc.IH [of ?st2] b e2 show ?thesis by simp
  qed
qed

lemma create_worker_loop_fits:
  "k \<le> remain_workers st \<Longrightarrow>
   \<exists>st'. create_worker_loop st k = Returned () st' \<and> (pool_inv st \<longrightarrow> pool_inv st') \<and>
         remain_workers st' = remain_workers st - k \<and> max_workers st' = max_workers st"
proof (induction k arbitrary: st)
  case 0
  show ?case by simp
next
  case (Suc k)
  define st2 where "st2 = st\<lparr> counter := counter st + 1,
                    worker_store := (worker_store st)(counter st :=
                       \<lparr> w_shutdown = False, w_trace = trace st, awaken = True, alive = True,
                         async_exc = False, in_get = False, current = None \<rparr>),
                    workers := (if counter st \<in> set (workers st) then workers st
                                else workers st @ [counter st]),
                    remain_workers := remain_workers st - 1 \<rparr>"
  from Suc.prems have pos: "remain_workers st \<noteq> 0" and le: "k \<le> remain_workers st2"
    by (simp_all add: st2_def)
  from pos have eq: "create_worker_loop st (Suc k) = create_worker_loop st2 k"
    by (simp add: Let_def st2_def)
  have inv: "pool_inv st2" if i: "pool_inv st"
  proof -
    from i have fresh: "counter st \<notin> set (workers st)"
      by (auto simp: pool_inv_def list_all_iff)
    then have w: "workers st2 = workers st @ [counter st]"
      by (simp add: st2_def)
    have r: "remain_workers st2 = remain_workers st - 1" "counter st2 = counter st + 1"
      "max_workers st2 = max_workers st"
      by (simp_all add: st2_def)
    from i fresh have a: "distinct (workers st2)"
      unfolding w by (simp add: pool_inv_def)
    from i have b: "list_all (\<lambda>n. n < counter st2) (workers st2)"
      unfolding w r by (auto simp: pool_inv_def list_all_iff)
    from i have "length (workers st) + remain_workers st = max_workers st"
      by (simp add: pool_inv_def)
    with pos have c: "length (workers st2) + remain_workers st2 = max_workers st2"
      unfolding w r by simp
    from a b c show ?thesis
      unfolding pool_inv_def by blast
  qed
  from Suc.IH [OF le] obtain st' where r: "create_worker_loop st2 k = Returned () st'"
    "pool_inv st2 \<longrightarrow> pool_inv st'" "remain_workers st' = remain_workers st2 - k"
    "max_workers st' = max_workers st2"
    by blast
  have "remain_workers st2 - k = remain_workers st - Suc k" "max_workers st2 = max_workers st"
    by (simp_all add: st2_def)
  with r inv show ?case
    unfolding eq by auto
qed

lemma keeps_create_worker:
  "nat sz \<le> remain_workers st \<Longrightarrow> keeps st (final (create_worker st sz))"
  using create_worker_loop_fits [of "nat sz" st] create_worker_loop_frame [of st "nat sz"]
  by (auto simp: keeps_def create_worker_def)

lemma flags_create_worker: "flags (final (create_worker st sz)) = flags st"
  by (simp add: create_worker_def create_worker_loop_frame)


lemma adjust_workers_returns:
  "\<exists>st'. adjust_workers st = Returned () st' \<and> keeps st st' \<and> task_part st' = task_part st"
proof (cases "remain_workers st > 0 \<and> length (tasks st) > 0")
  case False
  then show ?thesis by (auto simp: adjust_workers_def Let_def)
next
  case True
  let ?k = "min (remain_workers st) (length (tasks st))"
  have le: "?k \<le> remain_workers st" by simp
  from create_worker_loop_fits [OF le] create_worker_loop_frame [of st ?k] True
  show ?thesis
    by (auto simp: adjust_workers_def Let_def create_worker_def keeps_def)
qed

lemma keeps_adjust_workers: "keeps st (final (adjust_workers st))"
  using adjust_workers_returns [of st] by auto

lemma final_create_future [simp]: "final (create_future st tid) = st"
  by (simp add: create_future_def)

lemma keeps_Event_invoke [simp]: "keeps st (Event_invoke st e f)"
  by (simp add: Event_invoke_def keeps_def flags_def pool_inv_def exc_inv_def)

lemma keeps_handle_exn: "keeps st (final (handle_exn st n tid e))"
proof -
  have "keeps st (final (case Future_set_exception st tid e of
              Returned u st1 \<Rightarrow> Returned () (Event_invoke st1 e ERROR_OCCURRED)
            | Raised e' st1 \<Rightarrow> Raised e' (thread_exit st1 n)
            | Blocked st1 \<Rightarrow> Blocked st1))"
  proof (cases "Future_set_exception st tid e")
    case (Returned u st1)
    with keeps_set_exception [of st tid e] have "keeps st st1" by simp
    from keeps_trans [OF this keeps_Event_invoke] Returned show ?thesis by simp
  next
    case (Raised e' st1)
    with keeps_set_exception [of st tid e] have "keeps st st1" by simp
    from keeps_trans [OF this keeps_worker_updates(4)] Raised show ?thesis by simp
  next
    case (Blocked st1)
    with keeps_set_exception [of st tid e] show ?thesis by simp
  qed
  then show ?thesis
    by (simp add: handle_exn_def)
qed

lemma keeps_then_adjust:
  assumes "keeps st st4"
  shows "keeps st (final (case adjust_workers st4 of
                      Returned u' st5 \<Rightarrow> Returned tid st5
                    | Raised e st5 \<Rightarrow> Raised e st5
                    | Blocked st5 \<Rightarrow> Blocked st5))"
proof -
  from adjust_workers_returns [of st4] obtain st5 where
    a: "adjust_workers st4 = Returned () st5" "keeps st4 st5"
    by blast
  from keeps_trans [OF assms a(2)] a(1) show ?thesis
    by simp
qed

lemma keeps_submit_task: "keeps st (final (submit_task st tid timeout))"
proof (cases "is_running st")
  case False
  then show ?thesis by (simp add: submit_task_def)
next
  case run: True
  let ?st1 = "upd_task st tid (\<lambda>t. t\<lparr>dispatcher := True\<rparr>)"
  have k1: "keeps st ?st1" by simp
  show ?thesis
  proof (cases "timeout = Some (- 1)")
    case True
    have "keeps st (?st1\<lparr>tasks := tasks ?st1 @ [tid]\<rparr>)"
      by (rule keeps_trans [OF k1]) simp
    from keeps_then_adjust [OF this, of tid] run True show ?thesis
      by (simp add: submit_task_def Let_def)
  next
    case nt: False
    show ?thesis
    proof (cases "semaphore st = 0")
      case True
      with run nt k1 show ?thesis
        by (simp add: submit_task_def Let_def)
    next
      case False
      let ?st3 = "?st1\<lparr>semaphore := semaphore ?st1 - 1, tasks := tasks ?st1 @ [tid]\<rparr>"
      have "keeps ?st1 ?st3"
        by (simp add: keeps_def flags_def pool_inv_def exc_inv_def)
      with k1 have "keeps st ?st3"
        by (rule keeps_trans)
      then have "keeps st (Future_add_done_callback ?st3 tid ReleasePermit)"
        by (rule keeps_trans) simp
      from keeps_then_adjust [OF this, of tid] run nt False show ?thesis
        by (simp add: submit_task_def Let_def)
    qed
  qed
qed

lemma create_future_cases:
  "create_future st tid = Returned h st' \<Longrightarrow> st' = st"
  "create_future st tid = Raised e st' \<Longrightarrow> st' = st"
  "create_future st tid \<noteq> Blocked st'"
  by (auto simp: create_future_def split: if_splits)

lemma keeps_Worker_run_begin: "keeps st (final (Worker_run_begin st n))"
  by (simp add: Worker_run_begin_def Let_def)

lemma keeps_Worker_run_get: "keeps st (final (Worker_run_get st n))"
proof -
  let ?w = "worker_store st n"
  consider (idle) "\<not> alive ?w \<or> \<not> in_get ?w"
    | (held) "alive ?w" "in_get ?w" "w_trace ?w \<and> \<not> awaken ?w"
    | (exc) "alive ?w" "in_get ?w" "\<not> (w_trace ?w \<and> \<not> awaken ?w)" "async_exc ?w"
    | (empty) "alive ?w" "in_get ?w" "\<not> (w_trace ?w \<and> \<not> awaken ?w)" "\<not> async_exc ?w"
        "tasks st = []"
    | (take) tid rest where "alive ?w" "in_get ?w" "\<not> (w_trace ?w \<and> \<not> awaken ?w)"
        "\<not> async_exc ?w" "tasks st = tid # rest"
    by (cases "tasks st") auto
  then show ?thesis
  proof cases
    case idle
    then show ?thesis by (auto simp: Worker_run_get_def Let_def)
  next
    case held
    then show ?thesis by (simp add: Worker_run_get_def Let_def)
  next
    case exc
    then show ?thesis by (simp add: Worker_run_get_def Let_def)
  next
    case empty
    have k: "keeps st (final (stop_worker (WorkerThread n) st [n]))"
      by (rule keeps_stop_worker)
    have "keeps st (final (case stop_worker (WorkerThread n) st [n] of
                      Returned u st1 \<Rightarrow> Returned () (thread_exit st1 n)
                    | Raised e st1 \<Rightarrow> Raised e (thread_exit st1 n)
                    | Blocked st1 \<Rightarrow> Blocked st1))"
    proof (cases "stop_worker (WorkerThread n) st [n]")
      case (Returned u st1)
      with k have "keeps st st1" by simp
      from keeps_trans [OF this keeps_worker_updates(4)] Returned show ?thesis by simp
    next
      case (Raised e st1)
      with k have "keeps st st1" by simp
      from keeps_trans [OF this keeps_worker_updates(4)] Raised show ?thesis by simp
    next
      case (Blocked st1)
      with k show ?thesis by simp
    qed
    with empty show ?thesis
      by (simp add: Worker_run_get_def Let_def del: stop_worker.simps)
  next
    case take
    let ?st2 = "upd_task ((upd_worker st n (\<lambda>w. w\<lparr>in_get := False\<rparr>))\<lparr>tasks := rest\<rparr>) tid
                  (\<lambda>t. t\<lparr>worker := Some n\<rparr>)"
    have "keeps st (upd_worker st n (\<lambda>w. w\<lparr>in_get := False\<rparr>))"
      by simp
    from keeps_trans [OF this keeps_field_updates(1)]
    have "keeps st ((upd_worker st n (\<lambda>w. w\<lparr>in_get := False\<rparr>))\<lparr>tasks := rest\<rparr>)" .
    from keeps_trans [OF this keeps_upd_task] have k2: "keeps st ?st2" .
    have a: "keeps st (final (case create_future ?st2 tid of
                 Returned h st3 \<Rightarrow>
                   Returned ()
                     (upd_worker (upd_task st3 tid (\<lambda>t. t\<lparr>future := Some h\<rparr>))
                        n (\<lambda>w. w\<lparr>current := Some tid\<rparr>))
               | Raised e st3 \<Rightarrow> handle_exn st3 n tid e
               | Blocked st3 \<Rightarrow> Blocked st3))"
    proof (cases "create_future ?st2 tid")
      case (Returned h st3)
      then have e3: "st3 = ?st2" by (rule create_future_cases)
      have "keeps ?st2 (upd_worker (upd_task ?st2 tid (\<lambda>t. t\<lparr>future := Some h\<rparr>))
                        n (\<lambda>w. w\<lparr>current := Some tid\<rparr>))"
        by (rule keeps_trans [of _ "upd_task ?st2 tid (\<lambda>t. t\<lparr>future := Some h\<rparr>)"]) simp_all
      from keeps_trans [OF k2 this] Returned e3 show ?thesis
        by simp
    next
      case (Raised e st3)
      then have e3: "st3 = ?st2" by (rule create_future_cases)
      from keeps_trans [OF k2 keeps_handle_exn [of ?st2 n tid e]] Raised e3 show ?thesis
        by simp
    next
      case (Blocked st3)
      then show ?thesis using create_future_cases(3) by blast
    qed
    have b: "keeps st (upd_worker ?st2 n (\<lambda>w. w\<lparr>current := Some tid\<rparr>))"
      by (rule keeps_trans [OF k2]) simp
    from take a b show ?thesis
      by (simp add: Worker_run_get_def Let_def)
  qed
qed

lemma keeps_Worker_run_finish: "keeps st (final (Worker_run_finish call st n))"
proof (cases "current (worker_store st n)")
  case None
  then show ?thesis by (simp add: Worker_run_finish_def)
next
  case (Some tid)
  let ?w = "worker_store st n"
  let ?t = "task_store st tid"
  let ?st0 = "upd_worker st n (\<lambda>w. w\<lparr>current := None\<rparr>)"
  show ?thesis
  proof (cases "\<not> alive ?w \<or> async_exc ?w")
    case True
    with Some show ?thesis
      by (auto simp: Worker_run_finish_def Let_def)
  next
    case False
    have k0: "keeps st ?st0" by simp
    have "keeps st (final (case call (func ?t) (args ?t) (kwargs ?t) of
                        Returns v \<Rightarrow>
                          if is_async ?t then Returned () ?st0
                          else (case Future_set_result ?st0 tid v of
                                  Returned u st1 \<Rightarrow> Returned () st1
                                | Raised e st1 \<Rightarrow> handle_exn st1 n tid e
                                | Blocked st1 \<Rightarrow> Blocked st1)
                      | Raises e \<Rightarrow> handle_exn ?st0 n tid e))"
    proof (cases "call (func ?t) (args ?t) (kwargs ?t)")
      case (Raises e)
      with keeps_trans [OF k0 keeps_handle_exn [of ?st0 n tid e]] show ?thesis
        by simp
    next
      case (Returns v)
      have "keeps ?st0 (final (case Future_set_result ?st0 tid v of
                                  Returned u st1 \<Rightarrow> Returned () st1
                                | Raised e st1 \<Rightarrow> handle_exn st1 n tid e
                                | Blocked st1 \<Rightarrow> Blocked st1))"
        using keeps_set_result [of ?st0 tid v]
      proof (cases "Future_set_result ?st0 tid v")
        case (Raised e st1)
        with keeps_set_result [of ?st0 tid v] have "keeps ?st0 st1" by simp
        from keeps_trans [OF this keeps_handle_exn [of st1 n tid e]] Raised show ?thesis
          by simp
      qed simp_all
      from keeps_trans [OF k0 this] Returns k0 show ?thesis
        by simp
    qed
    with Some False show ?thesis
      by (simp add: Worker_run_finish_def Let_def)
  qed
qed

lemma start_and_tick_parts:
  "pool_part (final (Dispatcher_start st)) = pool_part st"
  "pool_part (loop_tick st) = pool_part st"
  "worker_store (final (Dispatcher_start st)) = worker_store st"
  "worker_store (loop_tick st) = worker_store st"
  by (simp_all add: Dispatcher_start_def loop_tick_def Let_def pool_part_def)

text \<open>
  \<open>stop\<close> by its ways out: an exception leaves line 305 with the flags untouched; otherwise
  the loop is closed and \<open>call_soon_threadsafe\<close> raises, or the shutdown is handed to the
  loop and \<open>_running\<close> is cleared.
\<close>

lemma Dispatcher_stop_cases:
  "\<exists>st1. flags st1 = flags st \<and> (pool_inv st \<longrightarrow> pool_inv st1) \<and>
         (exc_inv st \<longrightarrow> exc_inv st1) \<and>
         ((\<exists>e. stop_worker caller st (workers st) = Raised e st1 \<and>
               Dispatcher_stop caller st = Raised e st1) \<or>
          (stop_worker caller st (workers st) = Returned () st1 \<and>
           Dispatcher_stop caller st =
             (if loop_closed st then Raised RuntimeError st1
              else Returned () (st1\<lparr>shutdown_scheduled := True, running_ev := False\<rparr>))))"
proof -
  let ?oc = "stop_worker caller st (workers st)"
  from stop_worker_frame [of caller st "workers st"] have
    f: "flags (final ?oc) = flags st" and i: "pool_inv st \<longrightarrow> pool_inv (final ?oc)"
    and x: "exc_inv st \<longrightarrow> exc_inv (final ?oc)" and nb: "\<And>st'. ?oc \<noteq> Blocked st'"
    by simp_all
  from f have l: "loop_closed (final ?oc) = loop_closed st"
    by (simp add: flags_def)
  show ?thesis
  proof (cases ?oc)
    case (Returned u st1)
    with f i x l show ?thesis
      by (intro exI [of _ st1]) (simp add: Dispatcher_stop_def)
  next
    case (Raised e st1)
    with f i x show ?thesis
      by (intro exI [of _ st1]) (simp add: Dispatcher_stop_def)
  next
    case (Blocked st1)
    with nb show ?thesis by blast
  qed
qed

lemma Dispatcher_stop_other:
  "\<exists>st1. flags st1 = flags st \<and>
         Dispatcher_stop OtherThread st =
           (if loop_closed st then Raised RuntimeError st1
            else Returned () (st1\<lparr>shutdown_scheduled := True, running_ev := False\<rparr>))"
  using Dispatcher_stop_cases [of st OtherThread] stop_worker_returns [of st "workers st"]
  by auto

lemma pool_inv_Dispatcher_stop:
  "pool_inv st \<Longrightarrow> pool_inv (final (Dispatcher_stop caller st))"
  using Dispatcher_stop_cases [of st caller] by (auto simp: pool_inv_def)

lemma Dispatcher_stop_final:
  "\<exists>st1. flags st1 = flags st \<and> (pool_inv st \<longrightarrow> pool_inv st1) \<and>
         (exc_inv st \<longrightarrow> exc_inv st1) \<and>
         (final (Dispatcher_stop caller st) = st1 \<or>
          final (Dispatcher_stop caller st) =
            st1\<lparr>shutdown_scheduled := True, running_ev := False\<rparr>)"
proof -
  from Dispatcher_stop_cases [of st caller] obtain st1 where
    a: "flags st1 = flags st" "pool_inv st \<longrightarrow> pool_inv st1" "exc_inv st \<longrightarrow> exc_inv st1"
    and d: "(\<exists>e. Dispatcher_stop caller st = Raised e st1) \<or>
            Dispatcher_stop caller st =
             (if loop_closed st then Raised RuntimeError st1
              else Returned () (st1\<lparr>shutdown_scheduled := True, running_ev := False\<rparr>))"
    by blast
  from d have "final (Dispatcher_stop caller st) = st1 \<or>
          final (Dispatcher_stop caller st) =
            st1\<lparr>shutdown_scheduled := True, running_ev := False\<rparr>"
    by (cases "loop_closed st") auto
  with a show ?thesis by blast
qed


text \<open>
  Every step other than the three of the life cycle and \<open>create_worker\<close> keeps the flags
  and the pool.
\<close>

lemma step_keeps:
  assumes "ev \<noteq> Start" and "\<And>c. ev \<noteq> Stop c" and "ev \<noteq> LoopTick"
    and "\<And>sz. ev \<noteq> CreateWorker sz"
  shows "keeps st (step call st ev)"
proof (cases ev)
  case (SubmitTask tid timeout)
  with keeps_submit_task [of st tid timeout] show ?thesis by simp
next
  case (CancelTask caller tid)
  with keeps_cancel_task [of st caller tid] show ?thesis by simp
next
  case (TaskCancel caller tid)
  with keeps_Task_cancel [of st caller tid] show ?thesis by simp
next
  case (AddDoneCallback tid cb)
  with keeps_add_done_callback [of st tid "UserCallback cb"] show ?thesis by simp
next
  case (StopWorker caller ids)
  with keeps_stop_worker [of st caller ids] show ?thesis by simp
next
  case (PauseWorker ids)
  with keeps_pause_worker [of st ids] show ?thesis by simp
next
  case (AwakeWorker ids)
  with keeps_awake_worker [of st ids] show ?thesis by simp
next
  case AdjustWorkers
  with keeps_adjust_workers [of st] show ?thesis by simp
next
  case (WorkerBegin n)
  with keeps_Worker_run_begin [of st n] show ?thesis by simp
next
  case (WorkerGet n)
  with keeps_Worker_run_get [of st n] show ?thesis by simp
next
  case (WorkerFinish n)
  with keeps_Worker_run_finish [of st call n] show ?thesis by simp
qed (use assms in simp_all)

lemma step_flags:
  assumes "ev \<noteq> Start" and "\<And>c. ev \<noteq> Stop c" and "ev \<noteq> LoopTick"
  shows "flags (step call st ev) = flags st"
proof (cases "\<exists>sz. ev = CreateWorker sz")
  case True
  then show ?thesis by (auto simp: flags_create_worker)
next
  case False
  with assms have "keeps st (step call st ev)"
    by (intro step_keeps) auto
  then show ?thesis by (simp add: keeps_def)
qed

section \<open>The flags of the life cycle along a run\<close>

lemma flags_views:
  assumes "flags st' = flags st"
  shows "halted st' = halted st" "closed_loop_is_shut st' = closed_loop_is_shut st"
    "shutdown_ev st' = shutdown_ev st"
  using assms by (simp_all add: flags_def halted_def closed_loop_is_shut_def)

lemma Dispatcher_start_flags:
  "shutdown_ev (final (Dispatcher_start st)) =
     (if started st then shutdown_ev st else shutdown_ev st \<or> shutdown_scheduled st)"
  "loop_closed (final (Dispatcher_start st)) =
     (if started st then loop_closed st
      else loop_closed st \<or> shutdown_ev st \<or> shutdown_scheduled st)"
  "shutdown_scheduled (final (Dispatcher_start st)) =
     (if started st then shutdown_scheduled st else False)"
  "running_ev (final (Dispatcher_start st)) = (if started st then running_ev st else True)"
  by (cases "started st"; cases "shutdown_scheduled st"; cases "shutdown_ev st";
      simp add: Dispatcher_start_def Let_def)+

lemma loop_tick_flags:
  "shutdown_ev (loop_tick st) =
     (shutdown_ev st \<or> (started st \<and> \<not> loop_closed st \<and> shutdown_scheduled st))"
  "loop_closed (loop_tick st) =
     (loop_closed st \<or> (started st \<and> \<not> loop_closed st \<and> shutdown_scheduled st))"
  "shutdown_scheduled (loop_tick st) =
     (shutdown_scheduled st \<and> \<not> (started st \<and> \<not> loop_closed st))"
  "running_ev (loop_tick st) = running_ev st"
  by (auto simp: loop_tick_def)

lemma Dispatcher_stop_views:
  shows "closed_loop_is_shut st \<Longrightarrow> closed_loop_is_shut (final (Dispatcher_stop caller st))"
    and "halted st \<Longrightarrow> halted (final (Dispatcher_stop caller st))"
    and "shutdown_ev st \<Longrightarrow> shutdown_ev (final (Dispatcher_stop caller st))"
proof -
  from Dispatcher_stop_final [of st caller] obtain st1 where f: "flags st1 = flags st"
    and d: "final (Dispatcher_stop caller st) = st1 \<or>
            final (Dispatcher_stop caller st) =
              st1\<lparr>shutdown_scheduled := True, running_ev := False\<rparr>"
    by blast
  from f have g: "shutdown_ev st1 = shutdown_ev st" "loop_closed st1 = loop_closed st"
    "shutdown_scheduled st1 = shutdown_scheduled st" "running_ev st1 = running_ev st"
    by (simp_all add: flags_def)
  show "closed_loop_is_shut st \<Longrightarrow> closed_loop_is_shut (final (Dispatcher_stop caller st))"
    using d g by (auto simp: closed_loop_is_shut_def)
  show "halted st \<Longrightarrow> halted (final (Dispatcher_stop caller st))"
    using d g by (auto simp: halted_def)
  show "shutdown_ev st \<Longrightarrow> shutdown_ev (final (Dispatcher_stop caller st))"
    using d g by auto
qed

lemma step_views:
  shows "closed_loop_is_shut st \<Longrightarrow> closed_loop_is_shut (step call st ev)"
    and "halted st \<Longrightarrow> halted (step call st ev)"
    and "shutdown_ev st \<Longrightarrow> shutdown_ev (step call st ev)"
proof -
  consider (start) "ev = Start" | (stop) c where "ev = Stop c" | (tick) "ev = LoopTick"
    | (other) "ev \<noteq> Start" "\<And>c. ev \<noteq> Stop c" "ev \<noteq> LoopTick"
    by blast
  then have "(closed_loop_is_shut st \<longrightarrow> closed_loop_is_shut (step call st ev)) \<and>
             (halted st \<longrightarrow> halted (step call st ev)) \<and>
             (shutdown_ev st \<longrightarrow> shutdown_ev (step call st ev))"
  proof cases
    case start
    then show ?thesis
      by (auto simp: closed_loop_is_shut_def halted_def Dispatcher_start_flags
          split: if_splits)
  next
    case stop
    then show ?thesis using Dispatcher_stop_views [of st c] by simp
  next
    case tick
    then show ?thesis
      by (auto simp: closed_loop_is_shut_def halted_def loop_tick_flags split: if_splits)
  next
    case other
    then have "flags (step call st ev) = flags st" by (rule step_flags)
    then show ?thesis using flags_views by blast
  qed
  then show "closed_loop_is_shut st \<Longrightarrow> closed_loop_is_shut (step call st ev)"
    and "halted st \<Longrightarrow> halted (step call st ev)"
    and "shutdown_ev st \<Longrightarrow> shutdown_ev (step call st ev)"
    by blast+
qed

lemma exec_views:
  shows "closed_loop_is_shut st \<Longrightarrow> closed_loop_is_shut (exec call st evs)"
    and "halted st \<Longrightarrow> halted (exec call st evs)"
    and "shutdown_ev st \<Longrightarrow> shutdown_ev (exec call st evs)"
proof -
  have "(closed_loop_is_shut st \<longrightarrow> closed_loop_is_shut (exec call st evs)) \<and>
        (halted st \<longrightarrow> halted (exec call st evs)) \<and>
        (shutdown_ev st \<longrightarrow> shutdown_ev (exec call st evs))"
  proof (induction evs arbitrary: st)
    case Nil
    show ?case by (simp add: exec_def)
  next
    case (Cons ev evs)
    have "exec call st (ev # evs) = exec call (step call st ev) evs"
      by (simp add: exec_def)
    with Cons [of "step call st ev"] step_views [of st call ev] show ?case
      by auto
  qed
  then show "closed_loop_is_shut st \<Longrightarrow> closed_loop_is_shut (exec call st evs)"
    and "halted st \<Longrightarrow> halted (exec call st evs)"
    and "shutdown_ev st \<Longrightarrow> shutdown_ev (exec call st evs)"
    by blast+
qed

text \<open>A call of \<open>stop\<close> that is not ended by \<open>SystemExit\<close> leaves the Dispatcher halted.\<close>

lemma halted_after_stop:
  assumes "closed_loop_is_shut st"
    and "\<And>st'. Dispatcher_stop caller st \<noteq> Raised SystemExit st'"
  shows "halted (final (Dispatcher_stop caller st))"
proof -
  from Dispatcher_stop_cases [of st caller] obtain st1 where f: "flags st1 = flags st"
    and d: "(\<exists>e. stop_worker caller st (workers st) = Raised e st1 \<and>
               Dispatcher_stop caller st = Raised e st1) \<or>
          (stop_worker caller st (workers st) = Returned () st1 \<and>
           Dispatcher_stop caller st =
             (if loop_closed st then Raised RuntimeError st1
              else Returned () (st1\<lparr>shutdown_scheduled := True, running_ev := False\<rparr>)))"
    by blast
  from d show ?thesis
  proof
    assume "\<exists>e. stop_worker caller st (workers st) = Raised e st1 \<and>
               Dispatcher_stop caller st = Raised e st1"
    then obtain e where r: "stop_worker caller st (workers st) = Raised e st1"
      "Dispatcher_stop caller st = Raised e st1"
      by blast
    from r(1) stop_worker_frame [of caller st "workers st"] have "e = SystemExit"
      by blast
    with r(2) assms(2) show ?thesis by blast
  next
    assume "stop_worker caller st (workers st) = Returned () st1 \<and>
           Dispatcher_stop caller st =
             (if loop_closed st then Raised RuntimeError st1
              else Returned () (st1\<lparr>shutdown_scheduled := True, running_ev := False\<rparr>))"
    with f assms(1) show ?thesis
      by (auto simp: halted_def closed_loop_is_shut_def flags_def split: if_splits)
  qed
qed

lemma halted_not_running: "halted st \<Longrightarrow> \<not> is_running st"
  by (auto simp: halted_def is_running_def)

section \<open>The pool along a run\<close>

lemma pool_inv_step:
  assumes "pool_inv st"
    and "case ev of CreateWorker sz \<Rightarrow> nat sz \<le> remain_workers st | _ \<Rightarrow> True"
  shows "pool_inv (step call st ev)"
proof -
  consider (start) "ev = Start" | (stop) c where "ev = Stop c" | (tick) "ev = LoopTick"
    | (create) sz where "ev = CreateWorker sz"
    | (other) "ev \<noteq> Start" "\<And>c. ev \<noteq> Stop c" "ev \<noteq> LoopTick" "\<And>sz. ev \<noteq> CreateWorker sz"
    by blast
  then show ?thesis
  proof cases
    case start
    with assms(1) pool_inv_cong [OF start_and_tick_parts(1), of st] show ?thesis by simp
  next
    case stop
    with assms(1) show ?thesis by (simp add: pool_inv_Dispatcher_stop)
  next
    case tick
    with assms(1) pool_inv_cong [OF start_and_tick_parts(2), of st] show ?thesis by simp
  next
    case create
    with assms keeps_create_worker [of sz st] show ?thesis by (simp add: keeps_def)
  next
    case other
    then have "keeps st (step call st ev)" by (rule step_keeps)
    with assms(1) show ?thesis by (simp add: keeps_def)
  qed
qed

lemma pool_inv_exec:
  "pool_inv st \<Longrightarrow> create_worker_fits call st evs \<Longrightarrow> pool_inv (exec call st evs)"
proof (induction evs arbitrary: st)
  case Nil
  then show ?case by (simp add: exec_def)
next
  case (Cons ev evs)
  from Cons.prems have "pool_inv (step call st ev)"
    by (auto intro: pool_inv_step)
  moreover from Cons.prems have "create_worker_fits call (step call st ev) evs"
    by simp
  ultimately have "pool_inv (exec call (step call st ev) evs)"
    by (rule Cons.IH)
  then show ?case by (simp add: exec_def)
qed

lemma pool_inv_init: "pool_inv (Dispatcher_init mw tr ts)"
  by (simp add: pool_inv_def Dispatcher_init_def)





section \<open>The Worker loop\<close>



section \<open>The size of the pool\<close>

text \<open>
  Claim C6 says that no sequence of \<open>create_worker\<close>, \<open>adjust_workers\<close> and \<open>stop_worker\<close>
  calls makes the number of live registered Workers exceed \<open>max_workers\<close>. \<open>create_worker\<close>
  registers and starts a Worker before it acquires the slot. On a started Dispatcher with
  one slot, \<open>create_worker(2)\<close> blocks in its second round with two live Workers in the
  registry; the Dispatcher is running, so both Workers pass the test of their loop and
  wait for Tasks.
\<close>

theorem create_worker_exceeds_max_workers:
  "is_running (exec returns_none example_init [Start]) \<and>
   (\<exists>st. create_worker (exec returns_none example_init [Start]) 2 = Blocked st \<and>
      max_workers st = 1 \<and> remain_workers st = 0 \<and> is_running st \<and>
      workers st = [0, 1] \<and> alive (worker_store st 0) \<and> alive (worker_store st 1) \<and>
      workers (exec returns_none st [WorkerBegin 0, WorkerBegin 1]) = [0, 1] \<and>
      alive (worker_store (exec returns_none st [WorkerBegin 0, WorkerBegin 1]) 0) \<and>
      in_get (worker_store (exec returns_none st [WorkerBegin 0, WorkerBegin 1]) 0) \<and>
      alive (worker_store (exec returns_none st [WorkerBegin 0, WorkerBegin 1]) 1) \<and>
      in_get (worker_store (exec returns_none st [WorkerBegin 0, WorkerBegin 1]) 1))"
  by (simp add: model_defs eval_nat_numeral)

section \<open>The \<open>running\<close> property\<close>

text \<open>
  Claim C8 says that \<open>running\<close> is the number of Tasks in flight or queued. After one Task
  has been submitted, executed and finished, the Worker is idle in its wait and still
  registered: the queue is empty, no submitted Task is unfinished, and \<open>running\<close> is 1.
\<close>

theorem running_counts_idle_worker:
  "running (exec returns_none example_init
              [Start, SubmitTask 0 None, WorkerBegin 0, WorkerGet 0, WorkerFinish 0,
               WorkerBegin 0]) \<noteq>
   int (in_flight_or_queued (exec returns_none example_init
              [Start, SubmitTask 0 None, WorkerBegin 0, WorkerGet 0, WorkerFinish 0,
               WorkerBegin 0]))"
proof -
  let ?s = "exec returns_none example_init
              [Start, SubmitTask 0 None, WorkerBegin 0, WorkerGet 0, WorkerFinish 0,
               WorkerBegin 0]"
  have r: "running ?s = 1"
    by (simp add: model_defs)
  have "{tid. dispatcher (task_store ?s tid) \<and> \<not> Future_done (task_store ?s tid)} = {}"
    by (auto simp: model_defs)
  then have "in_flight_or_queued ?s = 0"
    unfolding in_flight_or_queued_def by (simp only: card.empty)
  with r show ?thesis
    by simp
qed

text \<open>
  Claim C8, as the code has it: in every state that a new Dispatcher reaches by a run in
  which no \<open>create_worker\<close> call asks for more Workers than there are free slots,
  \<open>running\<close> is the number of registered Workers plus the number of queued Tasks. A
  registered Worker counts whether it executes a Task, waits for one, or has died without
  being deregistered.
\<close>

theorem running_is_workers_plus_queue:
  assumes "create_worker_fits call (Dispatcher_init mw tr ts) evs"
  shows "running (exec call (Dispatcher_init mw tr ts) evs) =
           int (length (workers (exec call (Dispatcher_init mw tr ts) evs))) +
           int (length (tasks (exec call (Dispatcher_init mw tr ts) evs)))"
proof -
  from pool_inv_exec [OF pool_inv_init assms]
  have "length (workers (exec call (Dispatcher_init mw tr ts) evs)) +
          remain_workers (exec call (Dispatcher_init mw tr ts) evs) =
        max_workers (exec call (Dispatcher_init mw tr ts) evs)"
    by (simp add: pool_inv_def)
  then show ?thesis
    unfolding running_def by linarith
qed

theorem running_is_workers_plus_queue_witness:
  "create_worker_fits returns_none (Dispatcher_init 1 False (\<lambda>tid. example_task))
     [Start, SubmitTask 0 None, WorkerBegin 0, WorkerGet 0, WorkerFinish 0] \<and>
   running (exec returns_none (Dispatcher_init 1 False (\<lambda>tid. example_task))
     [Start, SubmitTask 0 None, WorkerBegin 0, WorkerGet 0, WorkerFinish 0]) = 1 \<and>
   workers (exec returns_none (Dispatcher_init 1 False (\<lambda>tid. example_task))
     [Start, SubmitTask 0 None, WorkerBegin 0, WorkerGet 0, WorkerFinish 0]) = [0] \<and>
   tasks (exec returns_none (Dispatcher_init 1 False (\<lambda>tid. example_task))
     [Start, SubmitTask 0 None, WorkerBegin 0, WorkerGet 0, WorkerFinish 0]) = []"
proof -
  let ?evs = "[Start, SubmitTask 0 None, WorkerBegin 0, WorkerGet 0, WorkerFinish 0]"
  let ?i = "Dispatcher_init 1 False (\<lambda>tid. example_task)"
  have f: "create_worker_fits returns_none ?i ?evs"
    by simp
  have w: "workers (exec returns_none ?i ?evs) = [0]" "tasks (exec returns_none ?i ?evs) = []"
    by (simp_all add: model_defs)
  from running_is_workers_plus_queue [OF f] w f show ?thesis
    by simp
qed

section \<open>After stop\<close>

text \<open>
  Take any run of a new Dispatcher, a call of \<open>stop\<close> that is not ended by \<open>SystemExit\<close>,
  and any further calls and thread steps. Right after \<open>stop\<close> and in every later state
  \<open>is_running\<close> is false, so \<open>submit_task\<close> and \<open>create_future\<close> fail their first
  assertion; and once the shutdown event is set it stays set. A call of \<open>stop\<close> from a
  thread that is not a Worker's is never ended by \<open>SystemExit\<close>. (Calls are taken one after
  the other, and \<open>start\<close> with the first round of the Dispatcher's loop as one step.)
\<close>

lemma completed_stop_stays_stopped:
  assumes "\<And>st'. Dispatcher_stop caller (exec call (Dispatcher_init mw tr ts) evs0) \<noteq>
                   Raised SystemExit st'"
  shows "let st = final (Dispatcher_stop caller (exec call (Dispatcher_init mw tr ts) evs0));
             st' = exec call st evs
         in \<not> is_running st \<and> \<not> is_running st' \<and>
            submit_task st' tid timeout = Raised AssertionError st' \<and>
            create_future st' tid = Raised AssertionError st' \<and>
            (shutdown_ev st \<longrightarrow> shutdown_ev st')"
proof -
  let ?s0 = "exec call (Dispatcher_init mw tr ts) evs0"
  let ?st = "final (Dispatcher_stop caller ?s0)"
  let ?st' = "exec call ?st evs"
  have "closed_loop_is_shut (Dispatcher_init mw tr ts)"
    by (simp add: closed_loop_is_shut_def Dispatcher_init_def)
  then have "closed_loop_is_shut ?s0"
    by (rule exec_views)
  then have h: "halted ?st"
    using assms by (rule halted_after_stop)
  then have h': "halted ?st'"
    by (rule exec_views)
  from h h' have n: "\<not> is_running ?st" "\<not> is_running ?st'"
    by (simp_all add: halted_not_running)
  from n(2) have "submit_task ?st' tid timeout = Raised AssertionError ?st'"
    "create_future ?st' tid = Raised AssertionError ?st'"
    by (simp_all add: submit_task_def create_future_def)
  moreover have "shutdown_ev ?st \<longrightarrow> shutdown_ev ?st'"
    using exec_views(3) by blast
  ultimately show ?thesis
    using n by (simp add: Let_def)
qed

lemma stop_from_other_thread_completes:
  "Dispatcher_stop OtherThread st \<noteq> Raised SystemExit st'"
  using Dispatcher_stop_other [of st] by (auto split: if_splits)

text \<open>
  Claim C10 says that once \<open>stop()\<close> has been called, \<open>is_running()\<close> is false in every
  later state. A Task whose callable is the Dispatcher's \<open>stop\<close> is executed by Worker 0,
  so \<open>stop\<close> is called on that Worker's thread. Line 305 reaches the caller's own Worker,
  whose \<open>stop\<close> raises \<open>SystemExit\<close> in the calling thread; the exception leaves \<open>stop()\<close>
  before lines 307 and 309, so nothing is handed to the loop and \<open>_running\<close> stays set.
  After the call, and after the Worker's thread has ended, \<open>is_running()\<close> is true and
  \<open>submit_task\<close> accepts a Task.
\<close>

theorem stop_on_worker_thread_is_aborted:
  "current (worker_store
      (exec returns_none example_init [Start, SubmitTask 0 None, WorkerBegin 0, WorkerGet 0])
      0) = Some 0 \<and>
   (\<exists>st. Dispatcher_stop (WorkerThread 0)
           (exec returns_none example_init [Start, SubmitTask 0 None, WorkerBegin 0, WorkerGet 0])
           = Raised SystemExit st \<and>
      is_running st \<and> running_ev st \<and> \<not> shutdown_ev st \<and> \<not> shutdown_scheduled st \<and>
      workers st = [] \<and>
      \<not> alive (worker_store (exec returns_none st [WorkerFinish 0, LoopTick]) 0) \<and>
      is_running (exec returns_none st [WorkerFinish 0, LoopTick]) \<and>
      (\<exists>st'. submit_task (exec returns_none st [WorkerFinish 0, LoopTick]) 1 (Some (- 1)) =
               Returned 1 st'))"
  by (simp add: model_defs)

section \<open>Submission\<close>









section \<open>Exceptions of the callable\<close>

text \<open>
  Worker \<open>n\<close> executes Task \<open>tid\<close>, no \<open>SystemExit\<close> has been set for its thread, and the
  callable raises \<open>e\<close>. If \<open>e\<close> is an instance of \<open>Exception\<close> and the Task is not terminal
  yet, the loop goes on (nothing is raised in the Worker), the Task is finished with \<open>e\<close>
  as its exception, and the event bus has received exactly one more notification, \<open>e\<close>
  with \<open>ERROR_OCCURRED\<close>. If \<open>e\<close> is \<open>KeyboardInterrupt\<close> or \<open>SystemExit\<close>, it leaves \<open>run\<close>:
  the thread ends, the Tasks and the event bus are as before.
\<close>

lemma worker_captures_exception:
  assumes "alive (worker_store st n)" and "\<not> async_exc (worker_store st n)"
    and "current (worker_store st n) = Some tid"
    and "call (func (task_store st tid)) (args (task_store st tid)) (kwargs (task_store st tid))
           = Raises e"
  shows
    "(is_Exception e \<and> \<not> Future_done (task_store st tid) \<longrightarrow>
        (\<exists>st'. Worker_run_finish call st n = Returned () st' \<and>
           exception (task_store st' tid) = Some e \<and>
           state (task_store st' tid) = FINISHED \<and>
           event_bus st' = event_bus st @ [(e, ''ERROR_OCCURRED'')] \<and>
           alive (worker_store st' n) \<and> current (worker_store st' n) = None)) \<and>
     (e = KeyboardInterrupt \<or> e = SystemExit \<longrightarrow>
        (\<exists>st'. Worker_run_finish call st n = Raised e st' \<and>
           \<not> alive (worker_store st' n) \<and>
           task_store st' = task_store st \<and> event_bus st' = event_bus st))"
proof (intro conjI impI)
  assume a: "is_Exception e \<and> \<not> Future_done (task_store st tid)"
  then have "e \<noteq> KeyboardInterrupt \<and> e \<noteq> SystemExit"
    by (simp add: is_Exception_not_exit)
  with a assms show
    "\<exists>st'. Worker_run_finish call st n = Returned () st' \<and>
           exception (task_store st' tid) = Some e \<and>
           state (task_store st' tid) = FINISHED \<and>
           event_bus st' = event_bus st @ [(e, ''ERROR_OCCURRED'')] \<and>
           alive (worker_store st' n) \<and> current (worker_store st' n) = None"
    by (simp add: Worker_run_finish_def handle_exn_def Future_set_exception_def
        Future_done_def Event_invoke_def ERROR_OCCURRED_def Let_def)
next
  assume "e = KeyboardInterrupt \<or> e = SystemExit"
  with assms show
    "\<exists>st'. Worker_run_finish call st n = Raised e st' \<and>
           \<not> alive (worker_store st' n) \<and>
           task_store st' = task_store st \<and> event_bus st' = event_bus st"
    by (auto simp: Worker_run_finish_def handle_exn_def Let_def thread_exit_def)
qed

text \<open>
  Claim C4 says that for every Task whose callable raises an exception while a Worker
  executes it, the exception is stored on the Task, is never raised in the Worker, and
  one notification with the exception and \<open>ERROR_OCCURRED\<close> is emitted. A Task is
  cancelled, then submitted; Worker 0 takes it from the queue and calls the callable,
  which raises. The Task is terminal already, so \<open>set_exception\<close> in line 91 raises
  \<open>InvalidStateError\<close> inside the \<open>except\<close> clause: line 92 is not reached, that exception
  leaves \<open>run\<close> and ends the Worker's thread, nothing is stored on the Task, nothing is
  emitted, and the dead Worker keeps its name in the registry and its slot.
\<close>

theorem exception_of_cancelled_task_is_lost:
  "current (worker_store
      (exec raises_error example_init
         [Start, TaskCancel OtherThread 0, SubmitTask 0 None, WorkerBegin 0, WorkerGet 0])
      0) = Some 0 \<and>
   raises_error (func example_task) (args example_task) (kwargs example_task) =
     Raises (UserException 0) \<and>
   is_Exception (UserException 0) \<and>
   (\<exists>st'. Worker_run_finish raises_error
        (exec raises_error example_init
           [Start, TaskCancel OtherThread 0, SubmitTask 0 None, WorkerBegin 0, WorkerGet 0])
        0 = Raised InvalidStateError st' \<and>
      exception (task_store st' 0) = None \<and> event_bus st' = [] \<and>
      \<not> alive (worker_store st' 0) \<and> workers st' = [0] \<and> remain_workers st' = 0)"
  by (simp add: model_defs)

section \<open>Cancellation\<close>





end
